(* ===== verification/Prelude.thy ===== *)
theory Prelude
  imports Main "HOL-Library.Word"
begin

text \<open>
  The prelude of the development: names for the machine types of the Rust sources, the model
  of \<^verbatim>\<open>std::time\<close>, the theorem collections the component proofs use, and the generic lemmas on
  lists, options, maps and words that more than one component needs.

  Conventions. An unsigned or signed Rust integer of \<open>w\<close> bits is a \<open>w word\<close> where its width
  matters (\<open>+\<close> and \<open>-\<close> wrap, as in the release profile of \<^verbatim>\<open>Cargo.toml\<close>, which leaves overflow
  checks off). A \<^verbatim>\<open>usize\<close> that counts the elements of a buffer in memory is a \<open>nat\<close>.
  A \<^verbatim>\<open>panic!\<close>, \<^verbatim>\<open>assert!\<close> or \<^verbatim>\<open>unwrap\<close> on \<^verbatim>\<open>None\<close> is the value \<open>None\<close> of an \<open>option\<close> result.
\<close>

section \<open>Machine types\<close>

type_synonym u8 = "8 word"
type_synonym u32 = "32 word"
type_synonym u64 = "64 word"
type_synonym i32 = "32 word"
type_synonym bytes = "u8 list"

text \<open>\<^verbatim>\<open>saturating_add\<close> of an unsigned integer.\<close>

definition saturating_add :: "'a::len word \<Rightarrow> 'a word \<Rightarrow> 'a word" where
  "saturating_add a b = (if unat a + unat b < 2 ^ LENGTH('a) then a + b else - 1)"

section \<open>Time\<close>

text \<open>
  A \<^verbatim>\<open>Duration\<close> is its number of nanoseconds, a \<^verbatim>\<open>SystemTime\<close> the (possibly negative) number of
  nanoseconds since \<^verbatim>\<open>UNIX_EPOCH\<close>. On the platforms the server runs on, the seconds of a
  \<^verbatim>\<open>SystemTime\<close> are an \<^verbatim>\<open>i64\<close>, so \<^verbatim>\<open>checked_add\<close> fails when the sum leaves that range.
\<close>

type_synonym duration = nat
type_synonym system_time = int

definition systime_limit :: int where
  "systime_limit = 2 ^ 63 * 10 ^ 9"

definition systime_checked_add :: "system_time \<Rightarrow> duration \<Rightarrow> system_time option" where
  "systime_checked_add t d = (if t + int d < systime_limit then Some (t + int d) else None)"

definition duration_since :: "system_time \<Rightarrow> system_time \<Rightarrow> duration option" where
  "duration_since t earlier = (if earlier \<le> t then Some (nat (t - earlier)) else None)"

section \<open>Theorem collections\<close>

named_theorems frame_simps \<open>fields an operation leaves alone\<close>
named_theorems inv_intros \<open>an operation keeps an invariant\<close>
named_theorems inv_dests \<open>what an invariant says\<close>

section \<open>Options and sums\<close>

fun ok_or :: "'e \<Rightarrow> 'a option \<Rightarrow> 'e + 'a" where
  "ok_or e None = Inl e"
| "ok_or e (Some x) = Inr x"

lemma ok_or_eq_Inr [simp]: "ok_or e x = Inr y \<longleftrightarrow> x = Some y"
  by (cases x) auto

lemma ok_or_eq_Inl [simp]: "ok_or e x = Inl e' \<longleftrightarrow> x = None \<and> e = e'"
  by (cases x) auto

section \<open>Lists\<close>

lemma take_append_le [simp]: "n \<le> length xs \<Longrightarrow> take n (xs @ ys) = take n xs"
  by simp

lemma drop_append_le [simp]: "n \<le> length xs \<Longrightarrow> drop n (xs @ ys) = drop n xs @ ys"
  by simp

lemma concat_length: "length (concat xss) = sum_list (map length xss)"
  by (induction xss) auto

section \<open>Words\<close>

lemma unat_of_nat_small: "n < 2 ^ LENGTH('a) \<Longrightarrow> unat (of_nat n :: 'a::len word) = n"
  by (simp add: unsigned_of_nat take_bit_nat_eq_self)

lemma unat_mask_small:
  assumes "k < LENGTH('a)"
  shows "unat (2 ^ k - 1 :: 'a::len word) = 2 ^ k - 1"
proof -
  from assms have "(2::nat) ^ k - 1 < 2 ^ LENGTH('a)"
    by (metis less_imp_diff_less one_less_numeral_iff power_strict_increasing semiring_norm(76))
  from unat_of_nat_small [OF this] show ?thesis by (simp add: of_nat_diff)
qed

lemma unat_succ_small: "Suc k < 2 ^ LENGTH('a) \<Longrightarrow> unat (of_nat k + 1 :: 'a::len word) = Suc k"
  using unat_of_nat_small [of "Suc k", where 'a = 'a] by (simp add: add.commute)

lemma unat_pred_small:
  "k < 2 ^ LENGTH('a) \<Longrightarrow> 0 < k \<Longrightarrow> unat (of_nat k - 1 :: 'a::len word) = k - 1"
  using unat_of_nat_small [of "k - 1", where 'a = 'a] by (simp add: of_nat_diff)

lemma unat_shiftr1 [simp]: "unat (drop_bit (Suc 0) (h :: 'a::len word)) = unat h div 2"
  by (simp only: unat_drop_bit_eq) (simp add: drop_bit_eq_div)

lemma unat_less_32: "unat (w :: u32) < 2 ^ 32"
  using unsigned_less [of w] by simp

lemma unat_less_64: "unat (w :: u64) < 2 ^ 64"
  using unsigned_less [of w, where 'a = nat] by simp

lemma unat_less_8: "unat (w :: u8) < 256"
  using unsigned_less [of w] by simp

lemma unat_add_no_wrap:
  "unat a + unat b < 2 ^ LENGTH('a) \<Longrightarrow> unat (a + b :: 'a::len word) = unat a + unat b"
  by (simp only: unat_word_ariths) simp

unbundle bit_operations_syntax

text \<open>Words whose bits do not overlap: the disjunction is the sum.\<close>

lemma nat_or_disjoint: "y < 2 ^ k \<Longrightarrow> x * 2 ^ k OR y = x * 2 ^ k + (y :: nat)"
proof (induction k arbitrary: y)
  case (Suc k)
  from Suc.prems have "y div 2 < 2 ^ k" by auto
  from Suc.IH [OF this] show ?case
    by (subst or_nat_rec) (simp add: mult.assoc [symmetric] mult.commute; presburger)
qed simp

end
