(* ===== verification/Fast_CDC.thy ===== *)
theory Fast_CDC
  imports Prelude
begin

text \<open>
  The content-defined chunker of \<^verbatim>\<open>nativelink-util/src/fastcdc.rs\<close>: the \<^verbatim>\<open>FastCDC\<close> struct, its
  constructor, and its two \<^verbatim>\<open>Decoder\<close> operations. The byte-stream reader that drives a decoder
  (\<^verbatim>\<open>tokio_util::codec::FramedRead\<close>) is not part of the sources; what the development says of
  it is the locale \<open>frame_decoder\<close> and the relation \<open>framed\<close>: any order of reads and calls that
  the \<^verbatim>\<open>Decoder\<close> documentation allows.

  Shown: the chunks are exactly those of a reference chunker on the whole input, however the
  input is split into reads; together they are the input; their sizes are within the configured
  bounds; and the 32-bit rolling hash never overflows.
\<close>

unbundle bit_operations_syntax

section \<open>Configuration and state\<close>

record cdc_state =
  cdc_hash :: u32
  position :: nat

record fastcdc =
  min_size :: nat
  avg_size :: nat
  max_size :: nat
  norm_size :: nat
  mask_easy :: u32
  mask_hard :: u32
  cdc_st :: cdc_state

definition state_reset :: "cdc_state \<Rightarrow> cdc_state" where
  "state_reset s = s\<lparr>cdc_hash := 0, position := 0\<rparr>"





text \<open>\<^verbatim>\<open>Clone\<close> keeps the configuration and starts with a fresh state.\<close>

definition fastcdc_clone :: "fastcdc \<Rightarrow> fastcdc" where
  "fastcdc_clone c = c\<lparr>cdc_st := \<lparr>cdc_hash = 0, position = 0\<rparr>\<rparr>"

definition TABLE :: "u32 list" where
  "TABLE =
    [0x5c95c078, 0x22408989, 0x2d48a214, 0x12842087, 0x530f8afb, 0x474536b9,
     0x2963b4f1, 0x44cb738b, 0x4ea7403d, 0x4d606b6e, 0x074ec5d3, 0x3af39d18,
     0x726003ca, 0x37a62a74, 0x51a2f58e, 0x7506358e, 0x5d4ab128, 0x4d4ae17b,
     0x41e85924, 0x470c36f7, 0x4741cbe1, 0x01bb7f30, 0x617c1de3, 0x2b0c3a1f,
     0x50c48f73, 0x21a82d37, 0x6095ace0, 0x419167a0, 0x3caf49b0, 0x40cea62d,
     0x66bc1c66, 0x545e1dad, 0x2bfa77cd, 0x6e85da24, 0x5fb0bdc5, 0x652cfc29,
     0x3a0ae1ab, 0x2837e0f3, 0x6387b70e, 0x13176012, 0x4362c2bb, 0x66d8f4b1,
     0x37fce834, 0x2c9cd386, 0x21144296, 0x627268a8, 0x650df537, 0x2805d579,
     0x3b21ebbd, 0x7357ed34, 0x3f58b583, 0x7150ddca, 0x7362225e, 0x620a6070,
     0x2c5ef529, 0x7b522466, 0x768b78c0, 0x4b54e51e, 0x75fa07e5, 0x06a35fc6,
     0x30b71024, 0x1c8626e1, 0x296ad578, 0x28d7be2e, 0x1490a05a, 0x7cee43bd,
     0x698b56e3, 0x09dc0126, 0x4ed6df6e, 0x02c1bfc7, 0x2a59ad53, 0x29c0e434,
     0x7d6c5278, 0x507940a7, 0x5ef6ba93, 0x68b6af1e, 0x46537276, 0x611bc766,
     0x155c587d, 0x301ba847, 0x2cc9dda7, 0x0a438e2c, 0x0a69d514, 0x744c72d3,
     0x4f326b9b, 0x7ef34286, 0x4a0ef8a7, 0x6ae06ebe, 0x669c5372, 0x12402dcb,
     0x5feae99d, 0x76c7f4a7, 0x6abdb79c, 0x0dfaa038, 0x20e2282c, 0x730ed48b,
     0x069dac2f, 0x168ecf3e, 0x2610e61f, 0x2c512c8e, 0x15fb8c06, 0x5e62bc76,
     0x69555135, 0x0adb864c, 0x4268f914, 0x349ab3aa, 0x20edfdb2, 0x51727981,
     0x37b4b3d8, 0x5dd17522, 0x6b2cbfe4, 0x5c47cf9f, 0x30fa1ccd, 0x23dedb56,
     0x13d1f50a, 0x64eddee7, 0x0820b0f7, 0x46e07308, 0x1e2d1dfd, 0x17b06c32,
     0x250036d8, 0x284dbf34, 0x68292ee0, 0x362ec87c, 0x087cb1eb, 0x76b46720,
     0x104130db, 0x71966387, 0x482dc43f, 0x2388ef25, 0x524144e1, 0x44bd834e,
     0x448e7da3, 0x3fa6eaf9, 0x3cda215c, 0x3a500cf3, 0x395cb432, 0x5195129f,
     0x43945f87, 0x51862ca4, 0x56ea8ff1, 0x201034dc, 0x4d328ff5, 0x7d73a909,
     0x6234d379, 0x64cfbf9c, 0x36f6589a, 0x0a2ce98a, 0x5fe4d971, 0x03bc15c5,
     0x44021d33, 0x16c1932b, 0x37503614, 0x1acaf69d, 0x3f03b779, 0x49e61a03,
     0x1f52d7ea, 0x1c6ddd5c, 0x062218ce, 0x07e7a11a, 0x1905757a, 0x7ce00a53,
     0x49f44f29, 0x4bcc70b5, 0x39feea55, 0x5242cee8, 0x3ce56b85, 0x00b81672,
     0x46beeccc, 0x3ca0ad56, 0x2396cee8, 0x78547f40, 0x6b08089b, 0x66a56751,
     0x781e7e46, 0x1e2cf856, 0x3bc13591, 0x494a4202, 0x520494d7, 0x2d87459a,
     0x757555b6, 0x42284cc1, 0x1f478507, 0x75c95dff, 0x35ff8dd7, 0x4e4757ed,
     0x2e11f88c, 0x5e1b5048, 0x420e6699, 0x226b0695, 0x4d1679b4, 0x5a22646f,
     0x161d1131, 0x125c68d9, 0x1313e32e, 0x4aa85724, 0x21dc7ec1, 0x4ffa29fe,
     0x72968382, 0x1ca8eef3, 0x3f3b1c28, 0x39c2fb6c, 0x6d76493f, 0x7a22a62e,
     0x789b1c2a, 0x16e0cb53, 0x7deceeeb, 0x0dc7e1c6, 0x5c75bf3d, 0x52218333,
     0x106de4d6, 0x7dc64422, 0x65590ff4, 0x2c02ec30, 0x64a9ac67, 0x59cab2e9,
     0x4a21d2f3, 0x0f616e57, 0x23b54ee8, 0x02730aaa, 0x2f3c634d, 0x7117fc6c,
     0x01ac6f05, 0x5a9ed20c, 0x158c4e2a, 0x42b699f0, 0x0c7c14b3, 0x02bd9641,
     0x15ad56fc, 0x1c722f60, 0x7da1af91, 0x23e0dbcb, 0x0e93e12b, 0x64b2791d,
     0x440d2476, 0x588ea8dd, 0x4665a658, 0x7446c418, 0x1877a774, 0x5626407e,
     0x7f63bd46, 0x32d2dbd8, 0x3c790f4a, 0x772b7239, 0x6f8b2826, 0x677ff609,
     0x0dc82c11, 0x23ffe354, 0x2eac53a6, 0x16139e09, 0x0afd0dbc, 0x2a4d4237,
     0x56a368c7, 0x234325e4, 0x2dce9187, 0x32e8ea7e]"

section \<open>Decoding\<close>

definition mask_at :: "fastcdc \<Rightarrow> nat \<Rightarrow> u32" where
  "mask_at c i = (if i < norm_size c then mask_hard c else mask_easy c)"

definition next_hash :: "u32 \<Rightarrow> u8 \<Rightarrow> u32" where
  "next_hash h b = drop_bit 1 h + TABLE ! unat b"

text \<open>
  The \<^verbatim>\<open>while\<close> loop of \<^verbatim>\<open>decode\<close>: from index \<open>i\<close> with hash \<open>h\<close>, the split point (zero for none)
  and the hash the loop leaves behind.
\<close>

function decode_loop :: "fastcdc \<Rightarrow> bytes \<Rightarrow> nat \<Rightarrow> u32 \<Rightarrow> nat \<times> u32" where
  "decode_loop c buf i h =
     (if i < length buf then
        let h' = next_hash h (buf ! i) in
        if (h' AND mask_at c i) = 0 \<or> i \<ge> max_size c then (i, h')
        else decode_loop c buf (Suc i) h'
      else (0, h))"
  by pat_completeness auto
termination
  by (relation "measure (\<lambda>(c, buf, i, h). length buf - i)") auto

declare decode_loop.simps [simp del]

definition decode :: "fastcdc \<Rightarrow> bytes \<Rightarrow> bytes option \<times> fastcdc \<times> bytes" where
  "decode c buf =
     (if length buf \<le> min_size c then (None, c, buf)
      else
        let start_point = max (position (cdc_st c)) (min_size c);
            (split_point, h) = decode_loop c buf start_point (cdc_hash (cdc_st c));
            c = c\<lparr>cdc_st := (cdc_st c)\<lparr>cdc_hash := h\<rparr>\<rparr>
        in if split_point \<ge> min_size c then
             (Some (take split_point buf), c\<lparr>cdc_st := state_reset (cdc_st c)\<rparr>,
              drop split_point buf)
           else
             (None,
              c\<lparr>cdc_st := (cdc_st c)\<lparr>position :=
                  (if split_point = 0 then length buf else split_point)\<rparr>\<rparr>,
              buf))"

definition decode_eof :: "fastcdc \<Rightarrow> bytes \<Rightarrow> bytes option \<times> fastcdc \<times> bytes" where
  "decode_eof c buf =
     (case decode c buf of
        (Some frame, c', buf') \<Rightarrow> (Some frame, c', buf')
      | (None, c', buf') \<Rightarrow>
          let c'' = c'\<lparr>cdc_st := state_reset (cdc_st c')\<rparr> in
          if buf' = [] then (None, c'', buf') else (Some buf', c'', []))"

section \<open>The interface of a frame decoder\<close>

text \<open>
  What a reader may do with a \<^verbatim>\<open>Decoder\<close>, per its documentation: append bytes it has read to the
  buffer, call \<^verbatim>\<open>decode\<close> as often as it likes, and, once the input has ended, call \<^verbatim>\<open>decode_eof\<close>
  until it returns \<^verbatim>\<open>None\<close>. \<open>framed dec dec_eof d buf reads fs\<close>: from decoder \<open>d\<close> with \<open>buf\<close>
  pending and \<open>reads\<close> still to come, the reader can yield the frames \<open>fs\<close>.
\<close>

type_synonym 'd decode_fn = "'d \<Rightarrow> bytes \<Rightarrow> bytes option \<times> 'd \<times> bytes"

inductive framed ::
  "'d decode_fn \<Rightarrow> 'd decode_fn \<Rightarrow> 'd \<Rightarrow> bytes \<Rightarrow> bytes list \<Rightarrow> bytes list \<Rightarrow> bool"
  for dec dec_eof where
  frame: "dec d buf = (Some f, d', buf') \<Longrightarrow> framed dec dec_eof d' buf' reads fs \<Longrightarrow>
    framed dec dec_eof d buf reads (f # fs)"
| wait: "dec d buf = (None, d', buf') \<Longrightarrow> framed dec dec_eof d' buf' reads fs \<Longrightarrow>
    framed dec dec_eof d buf reads fs"
| read: "framed dec dec_eof d (buf @ r) reads fs \<Longrightarrow> framed dec dec_eof d buf (r # reads) fs"
| eof_frame: "dec_eof d buf = (Some f, d', buf') \<Longrightarrow> framed dec dec_eof d' buf' [] fs \<Longrightarrow>
    framed dec dec_eof d buf [] (f # fs)"
| eof_done: "dec_eof d buf = (None, d', buf') \<Longrightarrow> framed dec dec_eof d buf [] []"

text \<open>
  The contract of a decoder with reference chunker \<open>spec\<close>: \<open>coh\<close> says that its state fits the
  pending bytes.
\<close>

locale frame_decoder =
  fixes dec :: "'d decode_fn"
    and dec_eof :: "'d decode_fn"
    and coh :: "'d \<Rightarrow> bytes \<Rightarrow> bool"
    and spec :: "'d \<Rightarrow> bytes \<Rightarrow> bytes list"
  assumes coh_append: "coh d buf \<Longrightarrow> coh d (buf @ ys)"
    and dec_some: "coh d buf \<Longrightarrow> dec d buf = (Some f, d', buf') \<Longrightarrow>
      coh d' buf' \<and> spec d (buf @ ys) = f # spec d' (buf' @ ys)"
    and dec_none: "coh d buf \<Longrightarrow> dec d buf = (None, d', buf') \<Longrightarrow>
      buf' = buf \<and> coh d' buf \<and> spec d' = spec d"
    and eof_some: "coh d buf \<Longrightarrow> dec_eof d buf = (Some f, d', buf') \<Longrightarrow>
      coh d' buf' \<and> spec d buf = f # spec d' buf' \<and> length buf' < length buf"
    and eof_none: "coh d buf \<Longrightarrow> dec_eof d buf = (None, d', buf') \<Longrightarrow> spec d buf = []"
begin

lemma framed_spec:
  "framed dec dec_eof d buf reads fs \<Longrightarrow> coh d buf \<Longrightarrow> fs = spec d (buf @ concat reads)"
proof (induction rule: framed.induct)
  case (frame d buf f d' buf' reads fs)
  then show ?case using dec_some [OF frame.prems frame.hyps(1), of "concat reads"] by simp
next
  case (wait d buf d' buf' reads fs)
  then show ?case using dec_none [OF wait.prems wait.hyps(1)] by simp
next
  case (read d buf r reads fs)
  then show ?case by (simp add: coh_append)
next
  case (eof_frame d buf f d' buf' fs)
  then show ?case using eof_some [OF eof_frame.prems eof_frame.hyps(1)] by simp
next
  case (eof_done d buf d' buf')
  then show ?case using eof_none [OF eof_done.prems eof_done.hyps(1)] by simp
qed

lemma framed_eof_total: "coh d buf \<Longrightarrow> \<exists>fs. framed dec dec_eof d buf [] fs"
proof (induction "length buf" arbitrary: d buf rule: less_induct)
  case less
  obtain r d' buf' where eof: "dec_eof d buf = (r, d', buf')"
    by (cases "dec_eof d buf") auto
  show ?case
  proof (cases r)
    case None
    with eof show ?thesis by (auto intro: framed.eof_done)
  next
    case (Some f)
    with eof less.prems eof_some have "coh d' buf'" "length buf' < length buf" by blast+
    then obtain fs where "framed dec dec_eof d' buf' [] fs" using less.hyps by blast
    with eof Some show ?thesis by (blast intro: framed.eof_frame)
  qed
qed

lemma framed_total: "coh d buf \<Longrightarrow> \<exists>fs. framed dec dec_eof d buf reads fs"
proof (induction reads arbitrary: buf)
  case Nil
  then show ?case by (rule framed_eof_total)
next
  case (Cons r reads)
  then show ?case by (meson coh_append framed.read)
qed

end

section \<open>The reference chunker\<close>

text \<open>Where the first chunk of the data \<open>xs\<close> ends, with all of \<open>xs\<close> at hand.\<close>

definition cut_point :: "fastcdc \<Rightarrow> bytes \<Rightarrow> nat option" where
  "cut_point c xs =
     (if length xs \<le> min_size c then None
      else case fst (decode_loop c xs (min_size c) 0) of 0 \<Rightarrow> None | Suc n \<Rightarrow> Some (Suc n))"

lemma cut_pos: "cut_point c xs = Some n \<Longrightarrow> 0 < n"
  by (auto simp: cut_point_def split: if_splits nat.splits)

function ref_chunks :: "fastcdc \<Rightarrow> bytes \<Rightarrow> bytes list" where
  "ref_chunks c xs =
     (if xs = [] then []
      else case cut_point c xs of
        None \<Rightarrow> [xs]
      | Some n \<Rightarrow> take n xs # ref_chunks c (drop n xs))"
  by pat_completeness auto
termination
  by (relation "measure (\<lambda>(c, xs). length xs)") (auto dest: cut_pos)

declare ref_chunks.simps [simp del]

section \<open>The scan\<close>

lemma decode_loop_bounds:
  "decode_loop c buf i h = (s, h') \<Longrightarrow> s \<noteq> 0 \<Longrightarrow>
     i \<le> s \<and> s < length buf \<and> (i \<le> max_size c \<longrightarrow> s \<le> max_size c)"
proof (induction c buf i h rule: decode_loop.induct)
  case (1 c buf i h)
  then show ?case
    by (subst (asm) (2) decode_loop.simps)
       (auto simp: Let_def not_le Suc_le_eq split: if_splits dest: Suc_leD)
qed

lemma decode_loop_none_bound:
  "decode_loop c buf i h = (0, h') \<Longrightarrow> 0 < i \<Longrightarrow> i \<le> max_size c \<Longrightarrow> length buf \<le> max_size c"
proof (induction c buf i h rule: decode_loop.induct)
  case (1 c buf i h)
  then show ?case
    by (subst (asm) (2) decode_loop.simps) (auto simp: Let_def split: if_splits)
qed

text \<open>Scanning a longer buffer: what was found in the prefix stays, else the scan resumes.\<close>

lemma decode_loop_append:
  "0 < i \<Longrightarrow> i \<le> length xs \<Longrightarrow> decode_loop c (xs @ ys) i h =
     (case decode_loop c xs i h of
        (s, h') \<Rightarrow> if s \<noteq> 0 then (s, h') else decode_loop c (xs @ ys) (length xs) h')"
proof (induction c xs i h rule: decode_loop.induct)
  case (1 c xs i h)
  show ?case
  proof (cases "i < length xs")
    case True
    with "1.prems" "1.IH" [OF True refl] show ?thesis
      by (simp add: decode_loop.simps [of c _ i h] Let_def nth_append)
  next
    case False
    then have "decode_loop c xs i h = (0, h)" by (simp add: decode_loop.simps [of c xs i h])
    moreover from False "1.prems" have "i = length xs" by simp
    ultimately show ?thesis by simp
  qed
qed

section \<open>Coherent decoder states\<close>

text \<open>
  The configuration is usable (the constructor's asserts, and a positive minimum), and the state
  is either fresh or the one a scan of the first \<^verbatim>\<open>position\<close> bytes of the buffer left behind.
\<close>

definition cdc_wf :: "fastcdc \<Rightarrow> bool" where
  "cdc_wf c \<longleftrightarrow> 0 < min_size c \<and> min_size c < max_size c"

definition coherent :: "fastcdc \<Rightarrow> bytes \<Rightarrow> bool" where
  "coherent c buf \<longleftrightarrow> cdc_wf c \<and>
     (cdc_st c = \<lparr>cdc_hash = 0, position = 0\<rparr> \<or>
      min_size c < position (cdc_st c) \<and> position (cdc_st c) \<le> length buf \<and>
      decode_loop c (take (position (cdc_st c)) buf) (min_size c) 0 = (0, cdc_hash (cdc_st c)))"

text \<open>Nothing the scan reads is in the state.\<close>

lemma mask_at_st [simp]: "mask_at (c\<lparr>cdc_st := s\<rparr>) = mask_at c"
  by (simp add: mask_at_def fun_eq_iff)

lemma decode_loop_st [simp]: "decode_loop (c\<lparr>cdc_st := s\<rparr>) buf i h = decode_loop c buf i h"
proof (induction c buf i h rule: decode_loop.induct)
  case (1 c buf i h)
  then show ?case
    by (subst (1 2) decode_loop.simps) (simp add: Let_def)
qed

lemma cut_st [simp]: "cut_point (c\<lparr>cdc_st := s\<rparr>) = cut_point c"
  by (simp add: cut_point_def fun_eq_iff)

lemma ref_chunks_st [simp]: "ref_chunks (c\<lparr>cdc_st := s\<rparr>) = ref_chunks c"
proof
  show "ref_chunks (c\<lparr>cdc_st := s\<rparr>) xs = ref_chunks c xs" for xs
  proof (induction c xs rule: ref_chunks.induct)
    case (1 c xs)
    then show ?case
      by (subst (1 2) ref_chunks.simps) (auto split: option.splits)
  qed
qed

lemma cdc_wf_st [simp]: "cdc_wf (c\<lparr>cdc_st := s\<rparr>) = cdc_wf c"
  by (simp add: cdc_wf_def)

lemma coherent_fresh [simp]:
  "coherent (c\<lparr>cdc_st := \<lparr>cdc_hash = 0, position = 0\<rparr>\<rparr>) buf \<longleftrightarrow> cdc_wf c"
  by (auto simp: coherent_def cdc_wf_def)

lemma coherent_append: "coherent c buf \<Longrightarrow> coherent c (buf @ ys)"
  by (auto simp: coherent_def)

lemma state_reset_eq [simp]: "state_reset s = \<lparr>cdc_hash = 0, position = 0\<rparr>"
  by (simp add: state_reset_def)

text \<open>Resuming from a coherent state is scanning from the start.\<close>

lemma coherent_resume:
  assumes "coherent c buf" and "min_size c < length buf"
  shows "decode_loop c buf (max (position (cdc_st c)) (min_size c)) (cdc_hash (cdc_st c)) =
    decode_loop c buf (min_size c) 0"
proof (cases "cdc_st c = \<lparr>cdc_hash = 0, position = 0\<rparr>")
  case True
  then show ?thesis by simp
next
  case False
  let ?p = "position (cdc_st c)"
  from False assms have p: "min_size c < ?p" "?p \<le> length buf" "0 < min_size c"
    and scan: "decode_loop c (take ?p buf) (min_size c) 0 = (0, cdc_hash (cdc_st c))"
    by (auto simp: coherent_def cdc_wf_def)
  from p scan decode_loop_append [of "min_size c" "take ?p buf" c "drop ?p buf" 0]
  show ?thesis by simp
qed

section \<open>The reference chunker and the decoder agree\<close>

lemma cut_bounds:
  "cut_point c xs = Some n \<Longrightarrow> min_size c \<le> n \<and> n < length xs \<and> (cdc_wf c \<longrightarrow> n \<le> max_size c)"
  by (cases "decode_loop c xs (min_size c) 0")
     (auto simp: cut_point_def cdc_wf_def split: if_splits nat.splits dest!: decode_loop_bounds)

lemma cut_none_bound: "cut_point c xs = None \<Longrightarrow> cdc_wf c \<Longrightarrow> length xs \<le> max_size c"
  by (cases "decode_loop c xs (min_size c) 0")
     (auto simp: cut_point_def cdc_wf_def split: if_splits nat.splits dest: decode_loop_none_bound)

lemma cut_append: "cut_point c xs = Some n \<Longrightarrow> cdc_wf c \<Longrightarrow> cut_point c (xs @ ys) = Some n"
  using decode_loop_append [of "min_size c" xs c ys 0]
  by (cases "decode_loop c xs (min_size c) 0")
     (auto simp: cut_point_def cdc_wf_def split: if_splits nat.splits)

lemma decode_some:
  assumes "coherent c buf" and "cut_point c buf = Some n"
  shows "decode c buf =
    (Some (take n buf), c\<lparr>cdc_st := \<lparr>cdc_hash = 0, position = 0\<rparr>\<rparr>, drop n buf)"
proof -
  from assms(2) have len: "min_size c < length buf" by (auto simp: cut_point_def split: if_splits)
  obtain s h where loop: "decode_loop c buf (min_size c) 0 = (s, h)" by fastforce
  with assms(2) have s: "s = n" "n \<noteq> 0" by (auto simp: cut_point_def split: if_splits nat.splits)
  with loop decode_loop_bounds have "min_size c \<le> n" by blast
  with len s loop coherent_resume [OF assms(1) len] show ?thesis
    by (simp add: decode_def)
qed

lemma decode_none:
  assumes "coherent c buf" and "cut_point c buf = None"
  shows "\<exists>s. decode c buf = (None, c\<lparr>cdc_st := s\<rparr>, buf) \<and> coherent (c\<lparr>cdc_st := s\<rparr>) buf"
proof (cases "length buf \<le> min_size c")
  case True
  with assms(1) have "decode c buf = (None, c\<lparr>cdc_st := cdc_st c\<rparr>, buf)"
    by (simp add: decode_def)
  with assms(1) show ?thesis by (metis fastcdc.surjective fastcdc.update_convs(7))
next
  case False
  then have len: "min_size c < length buf" by simp
  obtain s h where loop: "decode_loop c buf (min_size c) 0 = (s, h)" by fastforce
  with assms(2) len have "s = 0" by (auto simp: cut_point_def split: nat.splits)
  moreover from assms(1) have "cdc_wf c" by (simp add: coherent_def)
  ultimately show ?thesis
    using len loop coherent_resume [OF assms(1) len]
    by (auto simp: decode_def coherent_def cdc_wf_def)
qed

lemma ref_chunks_cut:
  assumes "cdc_wf c" and "cut_point c buf = Some n"
  shows "ref_chunks c (buf @ ys) = take n buf # ref_chunks c (drop n buf @ ys)"
  using cut_append [OF assms(2,1), of ys] cut_bounds [OF assms(2)]
  by (subst ref_chunks.simps) auto

lemma decode_SomeD:
  assumes "coherent c buf" and "decode c buf = (Some f, c', buf')"
  obtains n where "cut_point c buf = Some n" "f = take n buf" "buf' = drop n buf"
    "c' = c\<lparr>cdc_st := \<lparr>cdc_hash = 0, position = 0\<rparr>\<rparr>"
  using assms decode_none decode_some by (cases "cut_point c buf") fastforce+

lemma decode_NoneD:
  assumes "coherent c buf" and "decode c buf = (None, c', buf')"
  shows "buf' = buf \<and> coherent c' buf \<and> (\<exists>s. c' = c\<lparr>cdc_st := s\<rparr>) \<and> cut_point c buf = None"
  using assms decode_none [of c buf] decode_some [of c buf] by (cases "cut_point c buf") fastforce+

lemma coherent_wf [inv_dests]: "coherent c buf \<Longrightarrow> cdc_wf c"
  by (simp add: coherent_def)

lemma decode_eof_cut:
  assumes "coherent c buf" and "cut_point c buf = Some n"
  shows "decode_eof c buf =
    (Some (take n buf), c\<lparr>cdc_st := \<lparr>cdc_hash = 0, position = 0\<rparr>\<rparr>, drop n buf)"
  using decode_some [OF assms] by (simp add: decode_eof_def)

lemma decode_eof_rest:
  assumes "coherent c buf" and "cut_point c buf = None"
  shows "decode_eof c buf =
    (if buf = [] then None else Some buf, c\<lparr>cdc_st := \<lparr>cdc_hash = 0, position = 0\<rparr>\<rparr>, [])"
proof -
  from decode_none [OF assms] obtain s where "decode c buf = (None, c\<lparr>cdc_st := s\<rparr>, buf)"
    by blast
  then show ?thesis by (simp add: decode_eof_def)
qed

lemma ref_chunks_Nil [simp]: "ref_chunks c [] = []"
  by (simp add: ref_chunks.simps)

lemma ref_chunks_rest: "cut_point c buf = None \<Longrightarrow> buf \<noteq> [] \<Longrightarrow> ref_chunks c buf = [buf]"
  by (simp add: ref_chunks.simps)

interpretation cdc: frame_decoder decode decode_eof coherent ref_chunks
proof (unfold_locales, goal_cases)
  case (1 d buf ys)
  then show ?case by (rule coherent_append)
next
  case (2 d buf f d' buf' ys)
  then have "cdc_wf d" by (auto intro: inv_dests)
  with 2 show ?case by (auto elim!: decode_SomeD simp: ref_chunks_cut)
next
  case (3 d buf d' buf')
  from decode_NoneD [OF this] show ?case by auto
next
  case (4 d buf f d' buf')
  then have wf: "cdc_wf d" by (auto intro: inv_dests)
  show ?case
  proof (cases "cut_point d buf")
    case None
    with 4 wf decode_eof_rest [OF 4(1) None] show ?thesis
      by (auto simp: ref_chunks_rest split: if_splits)
  next
    case (Some n)
    with 4 wf decode_eof_cut [OF 4(1) Some] cut_pos [OF Some] cut_bounds [OF Some]
      ref_chunks_cut [OF wf Some, of "[]"]
    show ?thesis by auto
  qed
next
  case (5 d buf d' buf')
  then show ?case
    using decode_eof_rest [OF 5(1)] decode_eof_cut [OF 5(1)]
    by (cases "cut_point d buf") (auto split: if_splits)
qed

section \<open>Properties of the chunks\<close>

lemma concat_ref_chunks: "concat (ref_chunks c xs) = xs"
proof (induction c xs rule: ref_chunks.induct)
  case (1 c xs)
  then show ?case by (subst ref_chunks.simps) (auto split: option.splits)
qed

lemma ref_chunks_nonempty: "f \<in> set (ref_chunks c xs) \<Longrightarrow> f \<noteq> []"
proof (induction c xs rule: ref_chunks.induct)
  case (1 c xs)
  then show ?case
    by (subst (asm) (2) ref_chunks.simps)
       (auto split: if_splits option.splits dest: cut_pos)
qed

lemma ref_chunks_max: "cdc_wf c \<Longrightarrow> f \<in> set (ref_chunks c xs) \<Longrightarrow> length f \<le> max_size c"
proof (induction c xs rule: ref_chunks.induct)
  case (1 c xs)
  then show ?case
    by (subst (asm) (2) ref_chunks.simps)
       (auto split: if_splits option.splits dest: cut_bounds cut_none_bound)
qed

lemma ref_chunks_min: "f \<in> set (butlast (ref_chunks c xs)) \<Longrightarrow> min_size c \<le> length f"
proof (induction c xs rule: ref_chunks.induct)
  case (1 c xs)
  show ?case
  proof (cases "cut_point c xs")
    case None
    with "1.prems" show ?thesis by (subst (asm) ref_chunks.simps) (auto split: if_splits)
  next
    case (Some n)
    with "1.IH" "1.prems" cut_bounds [OF Some] show ?thesis
      by (subst (asm) (2) ref_chunks.simps) (auto split: if_splits)
  qed
qed

lemma fastcdc_clone_coherent: "cdc_wf c \<Longrightarrow> coherent (fastcdc_clone c) buf"
  by (simp add: fastcdc_clone_def)

lemma framed_clone_iff:
  assumes "cdc_wf c"
  shows "framed decode decode_eof (fastcdc_clone c) [] reads fs \<longleftrightarrow>
    fs = ref_chunks c (concat reads)"
proof
  assume "framed decode decode_eof (fastcdc_clone c) [] reads fs"
  from cdc.framed_spec [OF this] assms show "fs = ref_chunks c (concat reads)"
    by (simp add: fastcdc_clone_def)
next
  assume fs: "fs = ref_chunks c (concat reads)"
  from assms have coh: "coherent (fastcdc_clone c) []" by (rule fastcdc_clone_coherent)
  then obtain fs' where run: "framed decode decode_eof (fastcdc_clone c) [] reads fs'"
    using cdc.framed_total by blast
  from cdc.framed_spec [OF run coh] run fs
  show "framed decode decode_eof (fastcdc_clone c) [] reads fs"
    by (simp add: fastcdc_clone_def)
qed

lemma TABLE_31_bit: "list_all (\<lambda>w. unat w < 2 ^ 31) TABLE"
  by (simp add: TABLE_def)

lemma TABLE_length: "length TABLE = 256"
  by (simp add: TABLE_def)


section \<open>Properties\<close>

text \<open>A small chunker, used by the witnesses below.\<close>

definition demo_cdc :: fastcdc where
  "demo_cdc = \<lparr>min_size = 1, avg_size = 4, max_size = 8, norm_size = 2,
     mask_easy = 1, mask_hard = 7, cdc_st = \<lparr>cdc_hash = 0, position = 0\<rparr>\<rparr>"

lemma demo_wf: "cdc_wf demo_cdc"
  by (simp add: cdc_wf_def demo_cdc_def)

lemma demo_chunks: "ref_chunks demo_cdc [7, 8, 9, 1, 2, 3] = [[7, 8], [9, 1], [2, 3]]"
  by (simp add: ref_chunks.simps cut_point_def decode_loop.simps next_hash_def mask_at_def
      TABLE_def demo_cdc_def)

text \<open>
  C3. The frames a reader gets from a cloned \<^verbatim>\<open>FastCDC\<close> are exactly the chunks of the reference
  chunker on the whole input: every way to split the input into reads and to order the calls gives
  the same frames, and some such run exists.
\<close>

theorem fastcdc_framing_deterministic:
  assumes "cdc_wf c"
  shows "framed decode decode_eof (fastcdc_clone c) [] reads fs \<longleftrightarrow>
    fs = ref_chunks c (concat reads)"
  using assms by (rule framed_clone_iff)

theorem fastcdc_framing_deterministic_witness:
  "framed decode decode_eof (fastcdc_clone demo_cdc) [] [[7, 8], [], [9, 1, 2, 3]] [[7, 8], [9, 1], [2, 3]]"
  using fastcdc_framing_deterministic [OF demo_wf, of "[[7, 8], [], [9, 1, 2, 3]]"]
  by (simp add: demo_chunks)

text \<open>
  C10. The frames put together are the input, none is empty, none is longer than \<^verbatim>\<open>max_size\<close>, and all
  but the last have at least \<^verbatim>\<open>min_size\<close> bytes.
\<close>

theorem fastcdc_frames_partition:
  assumes "cdc_wf c" and "framed decode decode_eof (fastcdc_clone c) [] reads fs"
  shows "concat fs = concat reads \<and>
    (\<forall>f \<in> set fs. 0 < length f \<and> length f \<le> max_size c) \<and>
    (\<forall>f \<in> set (butlast fs). min_size c \<le> length f)"
proof -
  from assms have "fs = ref_chunks c (concat reads)" by (simp add: framed_clone_iff)
  with assms(1) show ?thesis
    by (auto simp: concat_ref_chunks ref_chunks_max ref_chunks_min dest: ref_chunks_nonempty)
qed

theorem fastcdc_frames_partition_witness:
  "framed decode decode_eof (fastcdc_clone demo_cdc) [] [[7, 8, 9, 1, 2, 3]] [[7, 8], [9, 1], [2, 3]] \<and>
    concat [[7, 8], [9, 1], [2, 3]] = concat [[7, 8, 9, 1, 2, 3 :: u8]] \<and>
    list_all (\<lambda>f. 0 < length f \<and> length f \<le> max_size demo_cdc) [[7, 8], [9, 1], [2, 3 :: u8]] \<and>
    list_all (\<lambda>f. min_size demo_cdc \<le> length f) (butlast [[7, 8], [9, 1], [2, 3 :: u8]])"
proof -
  have framed: "framed decode decode_eof (fastcdc_clone demo_cdc) [] [[7, 8, 9, 1, 2, 3]]
    [[7, 8], [9, 1], [2, 3]]"
    by (simp add: framed_clone_iff [OF demo_wf] demo_chunks)
  from framed fastcdc_frames_partition [OF demo_wf framed] show ?thesis
    by (simp add: list_all_iff)
qed

text \<open>
  C20. The rolling hash never overflows its 32 bits: every entry of \<^verbatim>\<open>TABLE\<close> has its high bit clear,
  so the sum of the shifted hash and the entry is the sum of the two numbers.
\<close>

theorem fastcdc_hash_no_overflow:
  "unat (next_hash h b) = unat h div 2 + unat (TABLE ! unat b)"
proof -
  from TABLE_31_bit unat_less_8 [of b] have "unat (TABLE ! unat b) < 2 ^ 31"
    by (simp add: list_all_length TABLE_length)
  moreover have "unat (drop_bit 1 h) < 2 ^ 31"
    using unat_less_32 [of h] by simp
  ultimately show ?thesis
    by (simp only: next_hash_def) (subst unat_add_no_wrap, simp_all)
qed



end
