(* ===== verification/Rust_Std.thy ===== *)
theory Rust_Std
  imports Prelude "HOL-Library.List_Lexorder" "HOL-Library.Char_ord"
begin

text \<open>
  What the sources use of Rust's standard library: orderings and, on strings, decimal printing and parsing of
  integers, splitting at a separator from the left and from the right, joining, and collecting a
  sequence of results. A \<^verbatim>\<open>String\<close> is the list of its UTF-8 bytes, a HOL \<open>string\<close>; its order is the
  bytewise lexicographic one of \<^verbatim>\<open>Ord for str\<close>.
\<close>

section \<open>Orderings\<close>

datatype ordering = Less | Equal | Greater

text \<open>\<^verbatim>\<open>Ord::cmp\<close> of a type whose order is known, and \<^verbatim>\<open>Ordering::then_with\<close>.\<close>

definition cmp :: "'a :: linorder \<Rightarrow> 'a \<Rightarrow> ordering" where
  "cmp a b = (if a < b then Less else if a = b then Equal else Greater)"

fun then_with :: "ordering \<Rightarrow> ordering \<Rightarrow> ordering" where
  "then_with Equal r = r"
| "then_with Less r = Less"
| "then_with Greater r = Greater"

lemma then_with_cmp:
  "then_with (cmp a b) r \<noteq> Greater \<longleftrightarrow> a < b \<or> a = b \<and> r \<noteq> Greater"
  "then_with (cmp a b) r = Less \<longleftrightarrow> a < b \<or> a = b \<and> r = Less"
  by (auto simp: cmp_def)

lemma cmp_iff: "cmp a b \<noteq> Greater \<longleftrightarrow> a \<le> b" "cmp a b = Less \<longleftrightarrow> a < b"
  by (auto simp: cmp_def)

lemmas cmp_simps = then_with_cmp cmp_iff

section \<open>Decimal numbers\<close>

definition digit_char :: "nat \<Rightarrow> char" where
  "digit_char d = char_of (48 + d)"

definition digit_val :: "char \<Rightarrow> nat option" where
  "digit_val c =
     (let k = of_char c :: nat in if 48 \<le> k \<and> k \<le> 57 then Some (k - 48) else None)"

fun dec_of_nat :: "nat \<Rightarrow> string" where
  "dec_of_nat n =
     (if n < 10 then [digit_char n] else dec_of_nat (n div 10) @ [digit_char (n mod 10)])"

declare dec_of_nat.simps [simp del]

fun parse_digits :: "nat \<Rightarrow> string \<Rightarrow> nat option" where
  "parse_digits acc [] = Some acc"
| "parse_digits acc (c # cs) =
     (case digit_val c of None \<Rightarrow> None | Some d \<Rightarrow> parse_digits (10 * acc + d) cs)"

text \<open>
  \<^verbatim>\<open>str::parse\<close> for an unsigned type of \<open>w\<close> bits: an optional plus sign, then at least one digit;
  a value that does not fit is an error.
\<close>

definition parse_unsigned :: "nat \<Rightarrow> string \<Rightarrow> nat option" where
  "parse_unsigned w s =
     (let ds = (case s of [] \<Rightarrow> [] | c # cs \<Rightarrow> if c = CHR ''+'' then cs else s) in
      if ds = [] then None
      else case parse_digits 0 ds of
             None \<Rightarrow> None
           | Some n \<Rightarrow> if n < 2 ^ w then Some n else None)"

lemma digit_val_digit_char [simp]: "d < 10 \<Longrightarrow> digit_val (digit_char d) = Some d"
  by (simp add: digit_val_def digit_char_def)

lemma digit_char_inject: "a < 10 \<Longrightarrow> b < 10 \<Longrightarrow> digit_char a = digit_char b \<longleftrightarrow> a = b"
  by (metis digit_val_digit_char option.inject)

lemma parse_digits_append:
  "parse_digits acc (xs @ ys) =
     (case parse_digits acc xs of None \<Rightarrow> None | Some a \<Rightarrow> parse_digits a ys)"
  by (induction acc xs rule: parse_digits.induct) (auto split: option.splits)

lemma parse_digits_dec [simp]: "parse_digits 0 (dec_of_nat n) = Some n"
proof (induction n rule: dec_of_nat.induct)
  case (1 n)
  then show ?case
    by (subst dec_of_nat.simps) (auto simp: parse_digits_append)
qed

lemma dec_of_nat_not_Nil [simp]: "dec_of_nat n \<noteq> []"
  by (subst dec_of_nat.simps) simp

lemma dec_of_nat_digits: "c \<in> set (dec_of_nat n) \<Longrightarrow> \<exists>d < 10. c = digit_char d"
proof (induction n rule: dec_of_nat.induct)
  case (1 n)
  show ?case
  proof (cases "n < 10")
    case True
    with 1(2) show ?thesis by (subst (asm) dec_of_nat.simps) auto
  next
    case False
    with 1(2) have "c \<in> set (dec_of_nat (n div 10)) \<or> c = digit_char (n mod 10)"
      by (subst (asm) dec_of_nat.simps) auto
    moreover have "n mod 10 < 10" by simp
    ultimately show ?thesis using 1(1) [OF False] by blast
  qed
qed

lemma digit_val_char_None:
  "digit_val c = None \<Longrightarrow> c \<notin> set (dec_of_nat n)"
  using dec_of_nat_digits digit_val_digit_char by fastforce

lemma dec_of_nat_length: "n < 10 ^ k \<Longrightarrow> 0 < k \<Longrightarrow> length (dec_of_nat n) \<le> k"
proof (induction k arbitrary: n)
  case 0
  then show ?case by simp
next
  case (Suc k)
  show ?case
  proof (cases "n < 10")
    case True
    then show ?thesis by (subst dec_of_nat.simps) simp
  next
    case False
    with Suc.prems have "n div 10 < 10 ^ k" "0 < k" by (cases k; auto)+
    from Suc.IH [OF this] False show ?thesis by (subst dec_of_nat.simps) simp
  qed
qed

lemma parse_unsigned_dec: "n < 2 ^ w \<Longrightarrow> parse_unsigned w (dec_of_nat n) = Some n"
proof -
  assume "n < 2 ^ w"
  moreover have "CHR ''+'' \<notin> set (dec_of_nat n)"
    by (rule digit_val_char_None) (simp add: digit_val_def)
  ultimately have "(case dec_of_nat n of [] \<Rightarrow> [] | c # cs \<Rightarrow> if c = CHR ''+'' then cs else dec_of_nat n)
      = dec_of_nat n"
    by (cases "dec_of_nat n") auto
  with \<open>n < 2 ^ w\<close> show ?thesis by (simp add: parse_unsigned_def Let_def)
qed

lemma parse_unsigned_bound: "parse_unsigned w s = Some n \<Longrightarrow> n < 2 ^ w"
  by (auto simp: parse_unsigned_def Let_def split: if_splits option.splits list.splits)

section \<open>Splitting\<close>

text \<open>\<^verbatim>\<open>str::split_once\<close> with a character.\<close>

fun split_once :: "char \<Rightarrow> string \<Rightarrow> (string \<times> string) option" where
  "split_once c [] = None"
| "split_once c (x # xs) =
     (if x = c then Some ([], xs)
      else case split_once c xs of None \<Rightarrow> None | Some (a, b) \<Rightarrow> Some (x # a, b))"

lemma split_once_append [simp]: "c \<notin> set a \<Longrightarrow> split_once c (a @ c # b) = Some (a, b)"
  by (induction a) auto

lemma split_once_None [simp]: "split_once c s = None \<longleftrightarrow> c \<notin> set s"
  by (induction s) (auto split: option.splits)

lemma split_once_Some: "split_once c s = Some (a, b) \<Longrightarrow> s = a @ c # b \<and> c \<notin> set a"
  by (induction s arbitrary: a) (auto split: option.splits if_splits)

section \<open>Joining\<close>

text \<open>\<^verbatim>\<open>[String]::join\<close>.\<close>

fun join :: "string \<Rightarrow> string list \<Rightarrow> string" where
  "join sep [] = []"
| "join sep [x] = x"
| "join sep (x # y # xs) = x @ sep @ join sep (y # xs)"

lemma join_Cons: "xs \<noteq> [] \<Longrightarrow> join sep (x # xs) = x @ sep @ join sep xs"
  by (cases xs) auto

lemma join_snoc: "xs \<noteq> [] \<Longrightarrow> join sep (xs @ [y]) = join sep xs @ sep @ y"
  by (induction sep xs rule: join.induct) auto

section \<open>Collecting results\<close>

text \<open>\<^verbatim>\<open>iter.map(f).collect::<Result<Vec<_>, _>>()\<close>: the first error, or all values in order.\<close>

fun collect_results :: "('a \<Rightarrow> 'e + 'b) \<Rightarrow> 'a list \<Rightarrow> 'e + 'b list" where
  "collect_results f [] = Inr []"
| "collect_results f (x # xs) =
     (case f x of
        Inl e \<Rightarrow> Inl e
      | Inr y \<Rightarrow> (case collect_results f xs of Inl e \<Rightarrow> Inl e | Inr ys \<Rightarrow> Inr (y # ys)))"

lemma collect_results_InrD:
  "collect_results f xs = Inr ys \<Longrightarrow> list_all2 (\<lambda>x y. f x = Inr y) xs ys"
  by (induction xs arbitrary: ys) (auto split: sum.splits)

lemma collect_results_InrI:
  "list_all2 (\<lambda>x y. f x = Inr y) xs ys \<Longrightarrow> collect_results f xs = Inr ys"
  by (induction xs ys rule: list_all2_induct) auto

lemma collect_results_Inr_iff:
  "collect_results f xs = Inr ys \<longleftrightarrow> list_all2 (\<lambda>x y. f x = Inr y) xs ys"
  using collect_results_InrD collect_results_InrI by blast

lemma collect_results_map:
  "(\<And>x. x \<in> set xs \<Longrightarrow> f x = Inr (g x)) \<Longrightarrow> collect_results f xs = Inr (map g xs)"
  by (induction xs) auto

lemma collect_results_Inl:
  "collect_results f xs = Inl e \<Longrightarrow> \<exists>x \<in> set xs. f x = Inl e"
  by (induction xs) (auto split: sum.splits)

lemma collect_results_roundtrip:
  assumes "\<And>x. x \<in> set xs \<Longrightarrow> \<exists>y. f x = Inr y \<and> g y = Inr x"
  shows "\<exists>ys. collect_results f xs = Inr ys \<and> collect_results g ys = Inr xs"
  using assms
proof (induction xs)
  case (Cons x xs)
  then obtain y ys where "f x = Inr y" "g y = Inr x" "collect_results f xs = Inr ys"
    "collect_results g ys = Inr xs" by (metis list.set_intros)
  then show ?case by (intro exI [of _ "y # ys"]) simp
qed simp

text \<open>Sequencing with the \<^verbatim>\<open>?\<close> operator.\<close>

definition try_bind :: "'e + 'a \<Rightarrow> ('a \<Rightarrow> 'e + 'b) \<Rightarrow> 'e + 'b" where
  "try_bind r f = (case r of Inl e \<Rightarrow> Inl e | Inr x \<Rightarrow> f x)"

lemma try_bind_simps [simp]: "try_bind (Inl e) f = Inl e" "try_bind (Inr x) f = f x"
  by (simp_all add: try_bind_def)

lemma try_bind_Inr [simp]: "try_bind r f = Inr y \<longleftrightarrow> (\<exists>x. r = Inr x \<and> f x = Inr y)"
  by (cases r) auto

lemma try_bind_cong [fundef_cong]:
  "r = r' \<Longrightarrow> (\<And>x. r' = Inr x \<Longrightarrow> f x = g x) \<Longrightarrow> try_bind r f = try_bind r' g"
  by (cases r') auto

end
