(* ===== verification/Nl_Error.thy ===== *)
theory Nl_Error
  imports Rust_Std
begin

text \<open>
  The error type of \<^verbatim>\<open>nativelink-error/src/lib.rs\<close>: the gRPC codes, the \<^verbatim>\<open>Error\<close> struct with its
  constructors and combinators, and the \<^verbatim>\<open>ResultExt\<close> adapters on \<^verbatim>\<open>Result\<close> and \<^verbatim>\<open>Option\<close>.

  A message that the source builds with \<^verbatim>\<open>format!\<close> is represented by its format string: what is
  interpolated is a rendering for humans, and no modelled code inspects it.
\<close>

section \<open>Codes and errors\<close>

datatype Code =
    Ok | Cancelled | Unknown | InvalidArgument | DeadlineExceeded | NotFound | AlreadyExists
  | PermissionDenied | ResourceExhausted | FailedPrecondition | Aborted | OutOfRange
  | Unimplemented | Internal | Unavailable | DataLoss | Unauthenticated

text \<open>The discriminants of \<^verbatim>\<open>CodeDef\<close>, which \<^verbatim>\<open>code as i32\<close> yields.\<close>

fun code_as_i32 :: "Code \<Rightarrow> int" where
  "code_as_i32 Ok = 0" | "code_as_i32 Cancelled = 1" | "code_as_i32 Unknown = 2"
| "code_as_i32 InvalidArgument = 3" | "code_as_i32 DeadlineExceeded = 4"
| "code_as_i32 NotFound = 5" | "code_as_i32 AlreadyExists = 6"
| "code_as_i32 PermissionDenied = 7" | "code_as_i32 ResourceExhausted = 8"
| "code_as_i32 FailedPrecondition = 9" | "code_as_i32 Aborted = 10"
| "code_as_i32 OutOfRange = 11" | "code_as_i32 Unimplemented = 12"
| "code_as_i32 Internal = 13" | "code_as_i32 Unavailable = 14"
| "code_as_i32 DataLoss = 15" | "code_as_i32 Unauthenticated = 16"

record any_msg =
  type_url :: string
  any_value :: bytes

record Error =
  err_code :: Code
  err_messages :: "string list"
  err_details :: "any_msg list"

type_synonym 'a result = "Error + 'a"

section \<open>Constructors and combinators\<close>

definition new_with_messages :: "Code \<Rightarrow> string list \<Rightarrow> Error" where
  "new_with_messages c msgs = \<lparr>err_code = c, err_messages = msgs, err_details = []\<rparr>"

definition error_new :: "Code \<Rightarrow> string \<Rightarrow> Error" where
  "error_new c msg =
     (if msg = [] then new_with_messages c [] else new_with_messages c [msg])"

abbreviation make_err :: "Code \<Rightarrow> string \<Rightarrow> Error" where
  "make_err \<equiv> error_new"

abbreviation make_input_err :: "string \<Rightarrow> Error" where
  "make_input_err \<equiv> error_new InvalidArgument"

definition error_append :: "Error \<Rightarrow> string \<Rightarrow> Error" where
  "error_append e msg = e\<lparr>err_messages := err_messages e @ [msg]\<rparr>"

definition error_merge :: "Error \<Rightarrow> Error \<Rightarrow> Error" where
  "error_merge e other =
     e\<lparr>err_messages := err_messages e @ [''---''] @ err_messages other\<rparr>"

definition error_merge_option :: "Error option \<Rightarrow> Error option \<Rightarrow> Error option" where
  "error_merge_option this other =
     (case this of
        Some this \<Rightarrow>
          (case other of
             Some other \<Rightarrow> Some (error_merge this other)
           | None \<Rightarrow> Some this)
      | None \<Rightarrow> other)"

definition err_tip :: "string \<Rightarrow> 'a result \<Rightarrow> 'a result" where
  "err_tip tip r =
     (case r of
        Inl e \<Rightarrow> Inl (e\<lparr>err_code := err_code e, err_messages := err_messages e @ [tip]\<rparr>)
      | Inr v \<Rightarrow> Inr v)"

definition err_tip_option :: "string \<Rightarrow> 'a option \<Rightarrow> 'a result" where
  "err_tip_option tip x =
     (case x of
        Some v \<Rightarrow> Inr v
      | None \<Rightarrow> Inl \<lparr>err_code = Internal, err_messages = [tip], err_details = []\<rparr>)"

definition result_merge :: "'a result \<Rightarrow> 'b result \<Rightarrow> 'b result" where
  "result_merge self other =
     (case self of
        Inl e \<Rightarrow>
          (case other of
             Inl other_err \<Rightarrow>
               Inl (e\<lparr>err_messages := err_messages e @ [''---''] @ err_messages other_err\<rparr>)
           | Inr _ \<Rightarrow> Inl e)
      | Inr _ \<Rightarrow> other)"

text \<open>
  \<^verbatim>\<open>from_std_err\<close>: the argument is the chain of messages from the error to its root cause, as
  following \<^verbatim>\<open>source()\<close> yields them.
\<close>

definition error_from_std_err :: "Code \<Rightarrow> string list \<Rightarrow> Error" where
  "error_from_std_err c chain = new_with_messages c (rev chain)"

definition message_string :: "Error \<Rightarrow> string" where
  "message_string e = join '' : '' (err_messages e)"

definition not_found_with_detail :: "string \<Rightarrow> any_msg \<Rightarrow> Error" where
  "not_found_with_detail msg detail =
     \<lparr>err_code = NotFound, err_messages = [msg], err_details = [detail]\<rparr>"

definition resource_exhausted_backpressure :: "string \<Rightarrow> any_msg \<Rightarrow> Error" where
  "resource_exhausted_backpressure msg detail =
     \<lparr>err_code = ResourceExhausted, err_messages = [msg], err_details = [detail]\<rparr>"

definition aborted_with_detail :: "string \<Rightarrow> any_msg \<Rightarrow> Error" where
  "aborted_with_detail msg detail =
     \<lparr>err_code = Aborted, err_messages = [msg], err_details = [detail]\<rparr>"

definition deadline_exceeded_with_detail :: "string \<Rightarrow> any_msg \<Rightarrow> Error" where
  "deadline_exceeded_with_detail msg detail =
     \<lparr>err_code = DeadlineExceeded, err_messages = [msg], err_details = [detail]\<rparr>"

section \<open>Conversions to and from the wire\<close>

text \<open>
  \<^verbatim>\<open>google.rpc.Status\<close> and the parts of \<^verbatim>\<open>tonic::Status\<close> the conversions touch: its code, message and
  the bytes of the \<^verbatim>\<open>grpc-status-details-bin\<close> trailer. The functions of \<^verbatim>\<open>tonic\<close> and \<^verbatim>\<open>prost\<close> are
  arguments: \<open>code_of\<close> for \<^verbatim>\<open>Code::from(i32)\<close>, \<open>enc\<close> and \<open>dec\<close> for the protobuf encoding of a
  \<^verbatim>\<open>Status\<close>, and \<open>disp\<close> for \<^verbatim>\<open>tonic::Status::to_string\<close>.
\<close>

record rpc_status =
  st_code :: int
  st_message :: string
  st_details :: "any_msg list"

record tonic_status =
  tonic_code :: Code
  tonic_message :: string
  tonic_details :: bytes

definition error_to_rpc_status :: "Error \<Rightarrow> rpc_status" where
  "error_to_rpc_status e =
     \<lparr>st_code = code_as_i32 (err_code e), st_message = message_string e, st_details = err_details e\<rparr>"

definition error_from_rpc_status :: "(int \<Rightarrow> Code) \<Rightarrow> rpc_status \<Rightarrow> Error" where
  "error_from_rpc_status code_of s =
     \<lparr>err_code = code_of (st_code s), err_messages = [st_message s], err_details = st_details s\<rparr>"

definition error_to_tonic :: "(rpc_status \<Rightarrow> bytes) \<Rightarrow> Error \<Rightarrow> tonic_status" where
  "error_to_tonic enc e =
     (if err_details e = [] then
        \<lparr>tonic_code = err_code e, tonic_message = join '' : '' (err_messages e), tonic_details = []\<rparr>
      else
        let msg = join '' : '' (err_messages e);
            rpc = \<lparr>st_code = code_as_i32 (err_code e), st_message = msg, st_details = err_details e\<rparr>
        in \<lparr>tonic_code = err_code e, tonic_message = msg, tonic_details = enc rpc\<rparr>)"

definition error_from_tonic ::
  "(int \<Rightarrow> Code) \<Rightarrow> (bytes \<Rightarrow> rpc_status option) \<Rightarrow> (tonic_status \<Rightarrow> string) \<Rightarrow> tonic_status \<Rightarrow> Error" where
  "error_from_tonic code_of dec disp s =
     (let fallback = error_new (tonic_code s) (disp s) in
      if tonic_details s \<noteq> [] then
        (case dec (tonic_details s) of
           Some rpc \<Rightarrow> error_from_rpc_status code_of rpc
         | None \<Rightarrow> fallback)
      else fallback)"

text \<open>
  The \<^verbatim>\<open>std::io\<close> error kinds the two conversions name; the other kinds are \<open>OtherKind\<close>.
\<close>

datatype error_kind =
    KNotFound | KPermissionDenied | KConnectionRefused | KConnectionReset | KConnectionAborted
  | KAlreadyExists | KInvalidInput | KInvalidData | KTimedOut | KInterrupted | KNotConnected
  | KAddrInUse | KAddrNotAvailable | KBrokenPipe | KWouldBlock | KWriteZero | KOther
  | KUnexpectedEof | OtherKind nat

fun into_error_kind :: "Code \<Rightarrow> error_kind" where
  "into_error_kind Aborted = KInterrupted"
| "into_error_kind AlreadyExists = KAlreadyExists"
| "into_error_kind DeadlineExceeded = KTimedOut"
| "into_error_kind InvalidArgument = KInvalidInput"
| "into_error_kind NotFound = KNotFound"
| "into_error_kind PermissionDenied = KPermissionDenied"
| "into_error_kind Unavailable = KConnectionRefused"
| "into_error_kind _ = KOther"

fun into_code :: "error_kind \<Rightarrow> Code" where
  "into_code KNotFound = NotFound"
| "into_code KPermissionDenied = PermissionDenied"
| "into_code KConnectionRefused = Unavailable"
| "into_code KConnectionReset = Unavailable"
| "into_code KConnectionAborted = Unavailable"
| "into_code KAlreadyExists = AlreadyExists"
| "into_code KInvalidInput = InvalidArgument"
| "into_code KInvalidData = InvalidArgument"
| "into_code KTimedOut = DeadlineExceeded"
| "into_code KInterrupted = Aborted"
| "into_code (OtherKind _) = Unknown"
| "into_code _ = Internal"

definition to_std_err :: "Error \<Rightarrow> error_kind \<times> string" where
  "to_std_err e = (into_error_kind (err_code e), join '' : '' (err_messages e))"

definition error_from_io :: "error_kind \<times> string \<Rightarrow> Error" where
  "error_from_io io = \<lparr>err_code = into_code (fst io), err_messages = [snd io], err_details = []\<rparr>"

section \<open>Facts the components use\<close>

lemma err_code_error_new [simp]: "err_code (error_new c msg) = c"
  by (simp add: error_new_def new_with_messages_def)

lemma err_code_append [simp]: "err_code (error_append e msg) = err_code e"
  by (simp add: error_append_def)

lemma err_code_merge [simp]: "err_code (error_merge e e') = err_code e"
  by (simp add: error_merge_def)

lemma err_tip_Inr [simp]: "err_tip tip (Inr v) = Inr v"
  by (simp add: err_tip_def)

lemma err_tip_eq_Inr [simp]: "err_tip tip r = Inr v \<longleftrightarrow> r = Inr v"
  by (cases r) (auto simp: err_tip_def)

lemma err_tip_Inl_iff: "(\<exists>e. err_tip tip r = Inl e) \<longleftrightarrow> (\<exists>e. r = Inl e)"
  by (cases r) (auto simp: err_tip_def)

lemma err_tip_InlD: "err_tip tip r = Inl e \<Longrightarrow> \<exists>e'. r = Inl e' \<and> err_code e' = err_code e"
  by (cases r) (auto simp: err_tip_def)

lemma err_tip_option_eq_Inr [simp]: "err_tip_option tip x = Inr v \<longleftrightarrow> x = Some v"
  by (cases x) (auto simp: err_tip_option_def)

lemma err_tip_option_Some [simp]: "err_tip_option tip (Some v) = Inr v"
  by (simp add: err_tip_option_def)

section \<open>Errors survive the wire\<close>

text \<open>
  What the conversions rely on of \<^verbatim>\<open>tonic\<close> and \<^verbatim>\<open>prost\<close> for the \<^verbatim>\<open>Status\<close> of an error: the code is
  recovered from its discriminant, the \<^verbatim>\<open>Status\<close> from its encoding, and a message with a non-empty
  repeated field has a non-empty encoding.
\<close>

definition status_wire_ok ::
  "(int \<Rightarrow> Code) \<Rightarrow> (rpc_status \<Rightarrow> bytes) \<Rightarrow> (bytes \<Rightarrow> rpc_status option) \<Rightarrow> Error \<Rightarrow> bool" where
  "status_wire_ok code_of enc dec e \<longleftrightarrow>
     (let s = error_to_rpc_status e in
      code_of (code_as_i32 (err_code e)) = err_code e \<and> dec (enc s) = Some s \<and>
      (st_details s = [] \<or> enc s \<noteq> []))"

text \<open>
  C31. An error that crosses a gRPC boundary as a \<^verbatim>\<open>tonic::Status\<close> and comes back keeps its code and
  all its structured details; if it has details its messages come back joined into one.
\<close>

theorem error_tonic_roundtrip:
  assumes "status_wire_ok code_of enc dec e"
  shows "err_code (error_from_tonic code_of dec disp (error_to_tonic enc e)) = err_code e \<and>
    err_details (error_from_tonic code_of dec disp (error_to_tonic enc e)) = err_details e \<and>
    (err_details e \<noteq> [] \<longrightarrow>
      error_from_tonic code_of dec disp (error_to_tonic enc e) =
        e\<lparr>err_messages := [message_string e]\<rparr>)"
  using assms
  by (auto simp: status_wire_ok_def error_from_tonic_def error_to_tonic_def Let_def
      error_from_rpc_status_def error_new_def new_with_messages_def message_string_def
      error_to_rpc_status_def)

text \<open>
  A wire format that carries one \<^verbatim>\<open>MISSING\<close> detail and the message, to exhibit the assumptions.
\<close>

definition demo_code_of :: "int \<Rightarrow> Code" where
  "demo_code_of i =
     (case find (\<lambda>c. code_as_i32 c = i)
        [Ok, Cancelled, Unknown, InvalidArgument, DeadlineExceeded, NotFound, AlreadyExists,
         PermissionDenied, ResourceExhausted, FailedPrecondition, Aborted, OutOfRange,
         Unimplemented, Internal, Unavailable, DataLoss, Unauthenticated] of
        Some c \<Rightarrow> c | None \<Rightarrow> Unknown)"

lemma demo_code_of_inverse [simp]: "demo_code_of (code_as_i32 c) = c"
  by (cases c) (simp_all add: demo_code_of_def)

definition demo_enc :: "rpc_status \<Rightarrow> bytes" where
  "demo_enc s = 1 # map (\<lambda>c. of_nat (of_char c)) (st_message s)"

definition demo_dec :: "bytes \<Rightarrow> rpc_status option" where
  "demo_dec bs =
     (case bs of
        [] \<Rightarrow> None
      | _ # msg \<Rightarrow>
          Some \<lparr>st_code = 5, st_message = map (\<lambda>b. char_of (unat b)) msg,
            st_details = [\<lparr>type_url = ''MISSING'', any_value = [7]\<rparr>]\<rparr>)"

definition demo_error :: Error where
  "demo_error =
     error_append (not_found_with_detail ''a'' \<lparr>type_url = ''MISSING'', any_value = [7]\<rparr>) ''b''"

lemma demo_wire_ok: "status_wire_ok demo_code_of demo_enc demo_dec demo_error"
  by (simp add: status_wire_ok_def demo_code_of_def demo_enc_def demo_dec_def demo_error_def
      error_to_rpc_status_def not_found_with_detail_def message_string_def error_append_def char_of_def bit_0)

theorem error_tonic_roundtrip_witness:
  "error_from_tonic demo_code_of demo_dec (\<lambda>_. []) (error_to_tonic demo_enc demo_error) =
     not_found_with_detail ''a : b'' \<lparr>type_url = ''MISSING'', any_value = [7]\<rparr>"
  using error_tonic_roundtrip [OF demo_wire_ok, of "\<lambda>_. []"]
  by (simp add: demo_error_def not_found_with_detail_def error_append_def message_string_def)

text \<open>
  C38. An error that crosses a \<^verbatim>\<open>std::io::Error\<close> keeps its code exactly for the seven codes that have
  an error kind of their own; every other code becomes \<^verbatim>\<open>Internal\<close>.
\<close>

theorem error_io_roundtrip:
  "err_code (error_from_io (to_std_err e)) =
     (if err_code e \<in> {Aborted, AlreadyExists, DeadlineExceeded, InvalidArgument, NotFound,
        PermissionDenied, Unavailable}
      then err_code e else Internal)"
  by (cases "err_code e") (simp_all add: error_from_io_def to_std_err_def)

end
