(* ===== verification/Digest.thy ===== *)
theory Digest
  imports Nl_Error
begin

text \<open>
  \<^verbatim>\<open>nativelink-util/src/common.rs\<close>: \<^verbatim>\<open>DigestInfo\<close> with its packed hash, its string form
  \<^verbatim>\<open>{hex}-{size}\<close> written into a fixed stack buffer, the parser of that form, the conversions to and
  from the protobuf \<^verbatim>\<open>Digest\<close>, the total order on digests, and the \<^verbatim>\<open>try_map\<close> helpers.

  The functions of the \<^verbatim>\<open>hex\<close> crate are the argument \<open>hx\<close> of the definitions that call them.
\<close>

section \<open>Digests\<close>

datatype digest_info = DigestInfo (packed_hash: bytes) (size_bytes: u64)

definition digest_wf :: "digest_info \<Rightarrow> bool" where
  "digest_wf d \<longleftrightarrow> length (packed_hash d) = 32"

definition zero_digest :: digest_info where
  "zero_digest = DigestInfo (replicate 32 0) 0"

text \<open>\<^verbatim>\<open>Ord for DigestInfo\<close>: the hash first, then the size.\<close>

definition digest_cmp :: "digest_info \<Rightarrow> digest_info \<Rightarrow> ordering" where
  "digest_cmp a b = then_with (cmp (packed_hash a) (packed_hash b)) (cmp (size_bytes a) (size_bytes b))"

instantiation digest_info :: linorder
begin

definition less_eq_digest_info :: "digest_info \<Rightarrow> digest_info \<Rightarrow> bool" where
  "a \<le> b \<longleftrightarrow> digest_cmp a b \<noteq> Greater"

definition less_digest_info :: "digest_info \<Rightarrow> digest_info \<Rightarrow> bool" where
  "a < b \<longleftrightarrow> digest_cmp a b = Less"

instance
  by standard (auto simp: less_eq_digest_info_def less_digest_info_def digest_cmp_def cmp_simps digest_info.expand)

end

section \<open>Hex\<close>

text \<open>
  The two functions of the \<^verbatim>\<open>hex\<close> crate: \<open>hex_encode n bs\<close> is \<^verbatim>\<open>encode_to_slice\<close> into a slice of \<open>n\<close>
  bytes, \<open>hex_decode n s\<close> is \<^verbatim>\<open>decode_to_slice\<close> into a slice of \<open>n\<close> bytes, with the message of its
  error. What they promise is \<open>hex_ok\<close>: bytes have a lower-case encoding of twice their number, and
  decoding gives the bytes back, filling the whole slice.
\<close>

record hex_crate =
  hex_encode :: "nat \<Rightarrow> bytes \<Rightarrow> string option"
  hex_decode :: "nat \<Rightarrow> string \<Rightarrow> string + bytes"

definition hex_chars :: string where
  "hex_chars = ''0123456789abcdef''"

definition hex_ok :: "hex_crate \<Rightarrow> bool" where
  "hex_ok hx \<longleftrightarrow>
     (\<forall>bs. \<exists>s. hex_encode hx (2 * length bs) bs = Some s \<and> length s = 2 * length bs \<and>
        set s \<subseteq> set hex_chars \<and> hex_decode hx (length bs) s = Inr bs) \<and>
     (\<forall>n s bs. hex_decode hx n s = Inr bs \<longrightarrow> length bs = n)"

definition from_hex :: "hex_crate \<Rightarrow> string \<Rightarrow> bytes result" where
  "from_hex hx hash =
     (case hex_decode hx 32 hash of
        Inl e \<Rightarrow> Inl (error_append (error_from_std_err InvalidArgument [e]) ''Invalid sha256 hash: {hash}'')
      | Inr packed \<Rightarrow> Inr packed)"

definition to_hex :: "hex_crate \<Rightarrow> bytes \<Rightarrow> string option" where
  "to_hex hx packed = hex_encode hx (32 * 2) packed"

section \<open>Construction\<close>

definition digest_try_new :: "hex_crate \<Rightarrow> string \<Rightarrow> int \<Rightarrow> digest_info result" where
  "digest_try_new hx hash sz =
     try_bind (err_tip ''Invalid sha256 hash: {hash}'' (from_hex hx hash)) (\<lambda>packed.
     if sz < 0 \<or> sz \<ge> 2 ^ 64 then Inl (make_input_err ''Could not convert {} into u64'')
     else if sz > 2 ^ 63 - 1 then Inl (make_input_err ''Size bytes is too large: {} - max: {}'')
     else Inr (DigestInfo packed (of_int sz)))"

section \<open>The stack stringifier\<close>

fun count_digits :: "nat \<Rightarrow> nat" where
  "count_digits n = (if n = 0 then 0 else Suc (count_digits (n div 10)))"

declare count_digits.simps [simp del]

definition u64_max :: nat where
  "u64_max = 2 ^ 64 - 1"

definition stringifier_buf :: string where
  "stringifier_buf = replicate (32 * 2 + count_digits u64_max + 1) (CHR ''-'')"

text \<open>
  \<^verbatim>\<open>Cursor<&mut [u8]>::write_all\<close>: the bytes are copied at the position, which moves behind them; it
  is an error when they do not fit.
\<close>

definition cursor_write :: "nat \<times> string \<Rightarrow> string \<Rightarrow> (nat \<times> string) result" where
  "cursor_write cur data =
     (let (pos, buf) = cur in
      if pos + length data \<le> length buf
      then Inr (pos + length data, take pos buf @ data @ drop (pos + length data) buf)
      else Inl (error_from_io (KWriteZero, ''failed to write whole buffer'')))"

definition as_str :: "hex_crate \<Rightarrow> digest_info \<Rightarrow> string result" where
  "as_str hx d =
     (case to_hex hx (packed_hash d) of
        None \<Rightarrow> Inl (error_append (error_from_std_err InvalidArgument
                  [''an error occurred when formatting an argument'']) ''Could not convert PackedHash to hex - {:?}'')
      | Some hex \<Rightarrow>
          try_bind (err_tip ''Could not write hex to buffer - {hex:?} - {hex:?}''
            (cursor_write (0, stringifier_buf) hex)) (\<lambda>(pos, buf).
          try_bind (err_tip ''Could not write size_bytes to buffer - {hex:?}''
            (cursor_write (pos + 1, buf) (dec_of_nat (unat (size_bytes d))))) (\<lambda>(len, buf).
          Inr (take len buf))))"

text \<open>\<^verbatim>\<open>visit_str\<close> of the deserializer; its error is the message given to \<^verbatim>\<open>E::custom\<close>.\<close>

definition visit_str :: "hex_crate \<Rightarrow> string \<Rightarrow> string + digest_info" where
  "visit_str hx s =
     (case split_once (CHR ''-'') s of
        None \<Rightarrow> Inl ''Invalid DigestInfo format, expected '-' separator''
      | Some (hash, sz) \<Rightarrow>
          (case parse_unsigned 64 sz of
             None \<Rightarrow> Inl ''Could not parse size_bytes: {e}''
           | Some n \<Rightarrow>
               (case digest_try_new hx hash (int n) of
                  Inl e \<Rightarrow> Inl ''Could not create DigestInfo: {e}''
                | Inr d \<Rightarrow> Inr d)))"

section \<open>The protobuf digest\<close>

record proto_digest =
  pd_hash :: string
  pd_size_bytes :: int

definition digest_try_from :: "hex_crate \<Rightarrow> proto_digest \<Rightarrow> digest_info result" where
  "digest_try_from hx d =
     try_bind (err_tip ''Invalid sha256 hash: {}'' (from_hex hx (pd_hash d))) (\<lambda>packed.
     if pd_size_bytes d < 0
     then Inl (error_append (error_from_std_err InvalidArgument
            [''out of range integral type conversion attempted'']) ''Could not convert {} into u64'')
     else Inr (DigestInfo packed (of_int (pd_size_bytes d))))"

text \<open>
  \<^verbatim>\<open>PackedHash::to_string\<close>: the hexadecimal form. It would panic if \<^verbatim>\<open>to_hex\<close> failed, which it does on
  no array of 32 bytes; lists of another length do not exist in the Rust type, and the model gives
  them the empty string.
\<close>

definition packed_hash_to_string :: "hex_crate \<Rightarrow> bytes \<Rightarrow> string" where
  "packed_hash_to_string hx packed = (case to_hex hx packed of Some s \<Rightarrow> s | None \<Rightarrow> [])"

definition digest_into_proto :: "hex_crate \<Rightarrow> digest_info \<Rightarrow> proto_digest" where
  "digest_into_proto hx d =
     \<lparr>pd_hash = packed_hash_to_string hx (packed_hash d),
      pd_size_bytes = (if unat (size_bytes d) < 2 ^ 63 then int (unat (size_bytes d)) else -255)\<rparr>"

text \<open>
  The detail attached to a \<^verbatim>\<open>NotFound\<close>: one \<^verbatim>\<open>MISSING\<close> violation naming the blob. \<open>enc\<close> is the protobuf
  encoder of a \<^verbatim>\<open>PreconditionFailure\<close> with the given type, subject and description.
\<close>

definition make_precondition_failure_any ::
  "hex_crate \<Rightarrow> (string \<times> string \<times> string \<Rightarrow> bytes) \<Rightarrow> digest_info \<Rightarrow> any_msg" where
  "make_precondition_failure_any hx enc d =
     \<lparr>type_url = ''type.googleapis.com/google.rpc.PreconditionFailure'',
      any_value = enc (''MISSING'',
        ''blobs/'' @ packed_hash_to_string hx (packed_hash d) @ ''/'' @ dec_of_nat (unat (size_bytes d)), [])\<rparr>"

section \<open>Collections\<close>

definition vec_try_map :: "('a \<Rightarrow> 'b result) \<Rightarrow> 'a list \<Rightarrow> 'b list result" where
  "vec_try_map f xs = collect_results f xs"

text \<open>A \<^verbatim>\<open>HashMap\<close> is the list of its entries in iteration order.\<close>

definition hashmap_try_map :: "('a \<Rightarrow> 'b result) \<Rightarrow> ('k \<times> 'a) list \<Rightarrow> ('k \<times> 'b) list result" where
  "hashmap_try_map f m =
     collect_results (\<lambda>(k, v). case f v of Inl e \<Rightarrow> Inl e | Inr w \<Rightarrow> Inr (k, w)) m"

text \<open>
  \<^verbatim>\<open>encode_stream_proto\<close>: five bytes are reserved, the message appended, and the prefix filled with
  the zero compression flag and the length in big-endian order; too long a message is an error.
\<close>

definition be32 :: "u32 \<Rightarrow> bytes" where
  "be32 w = [ucast (drop_bit 24 w), ucast (drop_bit 16 w), ucast (drop_bit 8 w), ucast w]"

definition encode_stream_proto :: "bytes \<Rightarrow> bytes option" where
  "encode_stream_proto msg =
     (let buf = replicate 5 0 @ msg; len = length buf - 5 in
      if len < 2 ^ 32 then Some (0 # be32 (of_nat len) @ drop 5 buf) else None)"

section \<open>Facts\<close>

lemma hex_okD:
  assumes "hex_ok hx" "length bs = n"
  obtains s where "hex_encode hx (2 * n) bs = Some s" "length s = 2 * n"
    "set s \<subseteq> set hex_chars" "hex_decode hx n s = Inr bs"
  using assms unfolding hex_ok_def by blast

lemma to_hex_wf:
  assumes "hex_ok hx" "digest_wf d"
  obtains s where "to_hex hx (packed_hash d) = Some s" "length s = 64" "set s \<subseteq> set hex_chars"
    "from_hex hx s = Inr (packed_hash d)"
proof -
  from assms(2) have "length (packed_hash d) = 32" by (simp add: digest_wf_def)
  from hex_okD [OF assms(1) this] obtain s where s: "hex_encode hx (2 * 32) (packed_hash d) = Some s"
    "length s = 2 * 32" "set s \<subseteq> set hex_chars" "hex_decode hx 32 s = Inr (packed_hash d)" .
  show thesis by (rule that [of s]) (use s in \<open>simp_all add: to_hex_def from_hex_def\<close>)
qed

lemma from_hex_length: "hex_ok hx \<Longrightarrow> from_hex hx s = Inr bs \<Longrightarrow> length bs = 32"
  by (auto simp: from_hex_def hex_ok_def split: sum.splits)

lemma digest_try_new_wf [inv_intros]:
  "hex_ok hx \<Longrightarrow> digest_try_new hx h n = Inr d \<Longrightarrow> digest_wf d \<and> int (unat (size_bytes d)) = n"
  by (auto simp: digest_try_new_def digest_wf_def from_hex_length split: if_splits)
    (simp add: unsigned_of_int take_bit_int_eq_self)

lemma digest_try_from_wf [inv_intros]:
  "hex_ok hx \<Longrightarrow> digest_try_from hx p = Inr d \<Longrightarrow> digest_wf d"
  by (auto simp: digest_try_from_def digest_wf_def from_hex_length split: if_splits)

lemma count_digits_u64_max: "count_digits u64_max = 20"
  by (simp add: u64_max_def count_digits.simps)

lemma stringifier_buf_eq: "stringifier_buf = replicate 85 (CHR ''-'')"
  by (simp only: stringifier_buf_def count_digits_u64_max) simp

lemma u64_dec_length: "length (dec_of_nat (unat (w :: u64))) \<le> 20"
proof (rule dec_of_nat_length)
  show "unat w < 10 ^ 20" using unat_less_64 [of w] by simp
qed simp

lemma as_str_eq:
  assumes "to_hex hx (packed_hash d) = Some s" "length s = 64"
  shows "as_str hx d = Inr (s @ CHR ''-'' # dec_of_nat (unat (size_bytes d)))"
  using assms u64_dec_length [of "size_bytes d"]
  by (simp add: as_str_def cursor_write_def stringifier_buf_eq)

lemma hyphen_not_hex: "set s \<subseteq> set hex_chars \<Longrightarrow> CHR ''-'' \<notin> set s"
  by (auto simp: hex_chars_def)

lemma digest_proto_eq:
  assumes "hex_ok hx" "digest_wf d"
  shows "digest_try_from hx (digest_into_proto hx d) =
    (if unat (size_bytes d) < 2 ^ 63 then Inr d
     else Inl (error_append (error_from_std_err InvalidArgument
       [''out of range integral type conversion attempted'']) ''Could not convert {} into u64''))"
proof -
  obtain s where "to_hex hx (packed_hash d) = Some s" "from_hex hx s = Inr (packed_hash d)"
    using to_hex_wf [OF assms] .
  then show ?thesis
    by (cases d) (simp add: digest_into_proto_def digest_try_from_def packed_hash_to_string_def)
qed

definition digest_small :: "digest_info \<Rightarrow> bool" where
  "digest_small d \<longleftrightarrow> digest_wf d \<and> unat (size_bytes d) < 2 ^ 63"

lemma digest_small_roundtrip [simp]:
  "hex_ok hx \<Longrightarrow> digest_small d \<Longrightarrow> digest_try_from hx (digest_into_proto hx d) = Inr d"
  by (simp add: digest_small_def digest_proto_eq)

section \<open>A hex codec\<close>

text \<open>The textbook codec: it has the behaviour the \<^verbatim>\<open>hex\<close> crate documents, so \<open>hex_ok\<close> can hold.\<close>

definition nibble_char :: "nat \<Rightarrow> char" where
  "nibble_char n = hex_chars ! n"

definition nibble_val :: "char \<Rightarrow> nat option" where
  "nibble_val c =
     (let k = of_char c :: nat in
      if 48 \<le> k \<and> k \<le> 57 then Some (k - 48)
      else if 97 \<le> k \<and> k \<le> 102 then Some (k - 87) else None)"

fun nibbles_decode :: "string \<Rightarrow> bytes option" where
  "nibbles_decode [] = Some []"
| "nibbles_decode [_] = None"
| "nibbles_decode (a # b # s) =
     (case (nibble_val a, nibble_val b, nibbles_decode s) of
        (Some x, Some y, Some bs) \<Rightarrow> Some (of_nat (16 * x + y) # bs)
      | _ \<Rightarrow> None)"

definition nibbles_encode :: "bytes \<Rightarrow> string" where
  "nibbles_encode bs =
     concat (map (\<lambda>b. [nibble_char (unat b div 16), nibble_char (unat b mod 16)]) bs)"

definition hex_codec :: hex_crate where
  "hex_codec =
     \<lparr>hex_encode = (\<lambda>n bs. if n = 2 * length bs then Some (nibbles_encode bs) else None),
      hex_decode = (\<lambda>n s.
        case nibbles_decode s of
          Some bs \<Rightarrow> if length bs = n then Inr bs else Inl ''Invalid string length''
        | None \<Rightarrow> Inl ''Invalid character'')\<rparr>"

lemma less_16_cases:
  "(n :: nat) < 16 \<Longrightarrow> n \<in> {0, 1, 2, 3, 4, 5, 6, 7, 8, 9, 10, 11, 12, 13, 14, 15}"
  by simp presburger

lemma nibble_val_char: "n < 16 \<Longrightarrow> nibble_val (nibble_char n) = Some n"
  by (drule less_16_cases) (auto simp: nibble_val_def nibble_char_def hex_chars_def)

lemma nibble_char_hex: "n < 16 \<Longrightarrow> nibble_char n \<in> set hex_chars"
  by (simp add: nibble_char_def hex_chars_def nth_mem del: set_simps)

lemma nibbles_encode_Cons [simp]:
  "nibbles_encode (b # bs) =
     nibble_char (unat b div 16) # nibble_char (unat b mod 16) # nibbles_encode bs"
  by (simp add: nibbles_encode_def)

lemma unat_div_16: "unat (b :: u8) div 16 < 16"
  using unat_less_8 [of b] by simp

lemma nibbles_roundtrip:
  "nibbles_decode (nibbles_encode bs) = Some bs \<and> length (nibbles_encode bs) = 2 * length bs \<and>
     set (nibbles_encode bs) \<subseteq> set hex_chars"
proof (induction bs)
  case Nil
  show ?case by (simp add: nibbles_encode_def)
next
  case (Cons b bs)
  have "of_nat (16 * (unat b div 16) + unat b mod 16) = (of_nat (unat b) :: u8)"
    by (simp only: mult_div_mod_eq)
  then have "of_nat (16 * (unat b div 16) + unat b mod 16) = b" by (simp del: of_nat_add of_nat_mult)
  with Cons show ?case
    by (simp add: nibble_val_char nibble_char_hex unat_div_16 del: of_nat_add of_nat_mult)
qed

lemma hex_codec_ok: "hex_ok hex_codec"
  by (auto simp: hex_ok_def hex_codec_def nibbles_roundtrip split: option.splits if_splits)

section \<open>Round trips\<close>

text \<open>
  C32. Every digest has a string form, which fits the fixed buffer; parsing it gives the digest back
  exactly when the size fits the signed 64-bit size of the protobuf digest, and fails otherwise.
\<close>

theorem digest_string_roundtrip:
  assumes "hex_ok hx" "digest_wf d"
  shows "\<exists>s. as_str hx d = Inr s \<and> length s \<le> length stringifier_buf \<and>
    visit_str hx s = (if unat (size_bytes d) < 2 ^ 63 then Inr d
                      else Inl ''Could not create DigestInfo: {e}'')"
proof -
  obtain s where s: "to_hex hx (packed_hash d) = Some s" "length s = 64" "set s \<subseteq> set hex_chars"
    "from_hex hx s = Inr (packed_hash d)"
    using to_hex_wf [OF assms] .
  define n where "n = unat (size_bytes d)"
  then have n: "n < 2 ^ 64" and d: "d = DigestInfo (packed_hash d) (of_nat n)"
    using unat_less_64 [of "size_bytes d"] by (simp_all add: digest_info.expand)
  have "digest_try_new hx s (int n) =
      (if n < 2 ^ 63 then Inr d else Inl (make_input_err ''Size bytes is too large: {} - max: {}''))"
    using n s(4) by (subst d) (simp add: digest_try_new_def)
  then have "visit_str hx (s @ CHR ''-'' # dec_of_nat n) =
      (if n < 2 ^ 63 then Inr d else Inl ''Could not create DigestInfo: {e}'')"
    using hyphen_not_hex [OF s(3)] parse_unsigned_dec [OF n] by (simp add: visit_str_def)
  moreover have "as_str hx d = Inr (s @ CHR ''-'' # dec_of_nat n)"
    using as_str_eq [OF s(1,2)] by (simp only: n_def)
  moreover have "length (s @ CHR ''-'' # dec_of_nat n) \<le> length stringifier_buf"
    using s(2) u64_dec_length [of "size_bytes d"] by (simp add: stringifier_buf_eq n_def)
  ultimately show ?thesis unfolding n_def by blast
qed

definition demo_digest :: digest_info where
  "demo_digest = DigestInfo (0xe3 # replicate 31 0x0f) 1234567890123456789"

lemma demo_digest_wf: "digest_wf demo_digest"
  by (simp add: digest_wf_def demo_digest_def)

theorem digest_string_roundtrip_witness:
  "\<exists>s. as_str hex_codec demo_digest = Inr s \<and> visit_str hex_codec s = Inr demo_digest"
proof -
  have "unat (size_bytes demo_digest) < 2 ^ 63" by (simp add: demo_digest_def)
  with digest_string_roundtrip [OF hex_codec_ok demo_digest_wf] show ?thesis by auto
qed

text \<open>
  C37. A digest converts to a protobuf digest and back to itself exactly when its size fits a signed
  64-bit integer; a larger one turns into the placeholder size, which the conversion back rejects.
\<close>

theorem digest_proto_roundtrip:
  assumes "hex_ok hx" "digest_wf d"
  shows "digest_try_from hx (digest_into_proto hx d) =
    (if unat (size_bytes d) < 2 ^ 63 then Inr d
     else Inl (error_append (error_from_std_err InvalidArgument
       [''out of range integral type conversion attempted'']) ''Could not convert {} into u64''))"
  using assms by (rule digest_proto_eq)

theorem digest_proto_roundtrip_witness:
  "digest_try_from hex_codec (digest_into_proto hex_codec demo_digest) = Inr demo_digest"
proof -
  have "unat (size_bytes demo_digest) < 2 ^ 63" by (simp add: demo_digest_def)
  with digest_proto_roundtrip [OF hex_codec_ok demo_digest_wf] show ?thesis by auto
qed

end
