(* ===== verification/Action_Messages.thy ===== *)
theory Action_Messages
  imports Digest
begin

text \<open>
  \<^verbatim>\<open>nativelink-util/src/action_messages.rs\<close> and the hash-function names of
  \<^verbatim>\<open>nativelink-util/src/digest_hasher.rs\<close>: operation ids, action keys, \<^verbatim>\<open>ActionInfo\<close>, action results with
  their protobuf counterparts, stages, states and the long-running operation a client sees.

  The protobuf messages are records with the fields of
  \<^verbatim>\<open>nativelink-proto/build/bazel/remote/execution/v2/remote_execution.proto\<close>; a message the sources
  never look into is its encoded bytes. What the \<^verbatim>\<open>prost\<close> and \<^verbatim>\<open>uuid\<close> crates provide (conversion of
  timestamps and durations, encoding of messages, printing and parsing of UUIDs) is an argument.
\<close>

section \<open>Identifiers\<close>

type_synonym uuid = "128 word"

datatype operation_id = Uuid uuid | OpString string

text \<open>The derived \<^verbatim>\<open>Ord\<close>: every \<^verbatim>\<open>Uuid\<close> before every \<^verbatim>\<open>String\<close>.\<close>

instantiation operation_id :: linorder
begin

fun less_eq_operation_id :: "operation_id \<Rightarrow> operation_id \<Rightarrow> bool" where
  "Uuid a \<le> Uuid b \<longleftrightarrow> a \<le> b"
| "Uuid a \<le> OpString b \<longleftrightarrow> True"
| "OpString a \<le> Uuid b \<longleftrightarrow> False"
| "OpString a \<le> OpString b \<longleftrightarrow> a \<le> b"

definition less_operation_id :: "operation_id \<Rightarrow> operation_id \<Rightarrow> bool" where
  "a < b \<longleftrightarrow> a \<le> b \<and> \<not> b \<le> (a :: operation_id)"

instance
proof
  fix x y z :: operation_id
  show "x < y \<longleftrightarrow> x \<le> y \<and> \<not> y \<le> x" by (rule less_operation_id_def)
  show "x \<le> x" by (cases x) auto
  show "x \<le> y \<Longrightarrow> y \<le> z \<Longrightarrow> x \<le> z" by (cases x; cases y; cases z) auto
  show "x \<le> y \<Longrightarrow> y \<le> x \<Longrightarrow> x = y" by (cases x; cases y) auto
  show "x \<le> y \<or> y \<le> x" by (cases x; cases y) auto
qed

end

record uuid_crate =
  uuid_to_string :: "uuid \<Rightarrow> string"
  uuid_parse_str :: "string \<Rightarrow> uuid option"

fun into_string :: "uuid_crate \<Rightarrow> operation_id \<Rightarrow> string" where
  "into_string ux (Uuid u) = uuid_to_string ux u"
| "into_string ux (OpString name) = name"


type_synonym worker_id = string

section \<open>Digest functions and action keys\<close>

datatype digest_hasher_func = Sha256 | Blake3

text \<open>The numbers of \<^verbatim>\<open>DigestFunction.Value\<close>; the default function is process-wide state, an argument.\<close>

fun proto_digest_func :: "digest_hasher_func \<Rightarrow> int" where
  "proto_digest_func Sha256 = 1"
| "proto_digest_func Blake3 = 9"

definition digest_hasher_func_try_from :: "digest_hasher_func \<Rightarrow> int \<Rightarrow> digest_hasher_func result" where
  "digest_hasher_func_try_from dflt v =
     (if v = 0 then Inr dflt
      else if v = 1 then Inr Sha256
      else if v = 9 then Inr Blake3
      else Inl (make_input_err ''Unknown or unsupported digest function for int conversion: {:?}''))"

record action_unique_key =
  auk_instance_name :: string
  auk_digest_function :: digest_hasher_func
  auk_digest :: digest_info

datatype action_unique_qualifier = Cacheable action_unique_key | Uncacheable action_unique_key

fun auq_key :: "action_unique_qualifier \<Rightarrow> action_unique_key" where
  "auq_key (Cacheable k) = k"
| "auq_key (Uncacheable k) = k"

definition auq_instance_name :: "action_unique_qualifier \<Rightarrow> string" where
  "auq_instance_name q = auk_instance_name (auq_key q)"

definition auq_digest_function :: "action_unique_qualifier \<Rightarrow> digest_hasher_func" where
  "auq_digest_function q = auk_digest_function (auq_key q)"

definition auq_digest :: "action_unique_qualifier \<Rightarrow> digest_info" where
  "auq_digest q = auk_digest (auq_key q)"

section \<open>Action info\<close>

record action_info =
  command_digest :: digest_info
  input_root_digest :: digest_info
  timeout :: duration
  platform_properties :: "string \<rightharpoonup> string"
  priority :: i32
  load_timestamp :: system_time
  insert_timestamp :: system_time
  unique_qualifier :: action_unique_qualifier
  targetkey :: "string option"

text \<open>The parts of the requests the conversions read.\<close>

record execute_request =
  er_instance_name :: string
  er_skip_cache_lookup :: bool
  er_action_digest :: "proto_digest option"
  er_priority :: "i32 option"
  er_digest_function :: int

record proto_action =
  pa_command_digest :: "proto_digest option"
  pa_input_root_digest :: "proto_digest option"
  pa_timeout :: "(int \<times> int) option"
  pa_platform :: "(string \<times> string) list option"

text \<open>
  The properties are inserted one after the other, a later one replacing an earlier one of the same
  name. \<open>dur\<close> is \<^verbatim>\<open>prost\<close>'s conversion of a protobuf duration of seconds and nanoseconds.
\<close>

definition try_from_action_and_execute_request ::
  "hex_crate \<Rightarrow> digest_hasher_func \<Rightarrow> (int \<times> int \<Rightarrow> string + duration) \<Rightarrow> execute_request \<Rightarrow> proto_action \<Rightarrow>
    system_time \<Rightarrow> system_time \<Rightarrow> action_info result" where
  "try_from_action_and_execute_request hx dflt dur req act load queued =
     try_bind (err_tip ''Could not find digest_function in try_from_action_and_execute_request {:?}''
       (digest_hasher_func_try_from dflt (er_digest_function req))) (\<lambda>func.
     try_bind (err_tip_option ''Expected action_digest to exist on ExecuteRequest''
       (er_action_digest req)) (\<lambda>pd.
     try_bind (digest_try_from hx pd) (\<lambda>digest.
     let key = \<lparr>auk_instance_name = er_instance_name req, auk_digest_function = func,
           auk_digest = digest\<rparr>;
         qualifier = (if er_skip_cache_lookup req then Uncacheable key else Cacheable key);
         properties = (case pa_platform act of None \<Rightarrow> [] | Some ps \<Rightarrow> ps)
     in
     try_bind (err_tip_option ''Expected command_digest to exist on Action''
       (pa_command_digest act)) (\<lambda>pcd.
     try_bind (digest_try_from hx pcd) (\<lambda>cd.
     try_bind (err_tip_option ''Expected input_root_digest to exist on Action''
       (pa_input_root_digest act)) (\<lambda>pird.
     try_bind (digest_try_from hx pird) (\<lambda>ird.
     try_bind (case dur (case pa_timeout act of None \<Rightarrow> (0, 0) | Some d \<Rightarrow> d) of
         Inl e \<Rightarrow> Inl (error_append (error_from_std_err InvalidArgument [e])
                    ''Failed convert proto duration to system duration'')
       | Inr d \<Rightarrow> Inr d) (\<lambda>tmo.
     Inr \<lparr>command_digest = cd, input_root_digest = ird, timeout = tmo,
       platform_properties = fold (\<lambda>(n, v) m. m(n \<mapsto> v)) properties Map.empty,
       priority = (case er_priority req of None \<Rightarrow> 0 | Some p \<Rightarrow> p),
       load_timestamp = load, insert_timestamp = queued, unique_qualifier = qualifier,
       targetkey = None\<rparr>))))))))"

definition execute_request_from :: "hex_crate \<Rightarrow> action_info \<Rightarrow> execute_request" where
  "execute_request_from hx val =
     (let (skip, key) =
        (case unique_qualifier val of Cacheable k \<Rightarrow> (False, k) | Uncacheable k \<Rightarrow> (True, k)) in
      \<lparr>er_instance_name = auk_instance_name key, er_skip_cache_lookup = skip,
       er_action_digest = Some (digest_into_proto hx (auq_digest (unique_qualifier val))),
       er_priority = None, er_digest_function = proto_digest_func (auk_digest_function key)\<rparr>)"

section \<open>Files, symlinks and directories\<close>

datatype name_or_path = Name string | Path string

fun lexical_name :: "name_or_path \<Rightarrow> string" where
  "lexical_name (Name n) = n"
| "lexical_name (Path p) = p"

record file_info =
  fi_name_or_path :: name_or_path
  fi_digest :: digest_info
  fi_is_executable :: bool

record file_node =
  fn_name :: string
  fn_digest :: "proto_digest option"
  fn_is_executable :: bool
  fn_node_properties :: "bytes option"

record output_file =
  of_path :: string
  of_digest :: "proto_digest option"
  of_is_executable :: bool
  of_contents :: bytes
  of_node_properties :: "bytes option"

definition file_info_into_node :: "hex_crate \<Rightarrow> file_info \<Rightarrow> file_node result" where
  "file_info_into_node hx val =
     (case fi_name_or_path val of
        Path _ \<Rightarrow> Inl (make_input_err ''Cannot return a FileInfo that uses a NameOrPath::Path(), it must be a NameOrPath::Name()'')
      | Name name \<Rightarrow>
          Inr \<lparr>fn_name = name, fn_digest = Some (digest_into_proto hx (fi_digest val)),
            fn_is_executable = fi_is_executable val, fn_node_properties = None\<rparr>)"

definition file_info_try_from :: "hex_crate \<Rightarrow> output_file \<Rightarrow> file_info result" where
  "file_info_try_from hx f =
     try_bind (err_tip_option ''Expected digest to exist on OutputFile'' (of_digest f)) (\<lambda>pd.
     try_bind (digest_try_from hx pd) (\<lambda>d.
     Inr \<lparr>fi_name_or_path = Path (of_path f), fi_digest = d, fi_is_executable = of_is_executable f\<rparr>))"

definition file_info_into_output :: "hex_crate \<Rightarrow> file_info \<Rightarrow> output_file result" where
  "file_info_into_output hx val =
     (case fi_name_or_path val of
        Name _ \<Rightarrow> Inl (make_input_err ''Cannot return a FileInfo that uses a NameOrPath::Name(), it must be a NameOrPath::Path()'')
      | Path path \<Rightarrow>
          Inr \<lparr>of_path = path, of_digest = Some (digest_into_proto hx (fi_digest val)),
            of_is_executable = fi_is_executable val, of_contents = [], of_node_properties = None\<rparr>)"

record symlink_info =
  si_name_or_path :: name_or_path
  si_target :: string

record symlink_node =
  sn_name :: string
  sn_target :: string
  sn_node_properties :: "bytes option"

record output_symlink =
  os_path :: string
  os_target :: string
  os_node_properties :: "bytes option"

definition symlink_info_from_node :: "symlink_node \<Rightarrow> symlink_info" where
  "symlink_info_from_node n = \<lparr>si_name_or_path = Name (sn_name n), si_target = sn_target n\<rparr>"

definition symlink_info_into_node :: "symlink_info \<Rightarrow> symlink_node result" where
  "symlink_info_into_node val =
     (case si_name_or_path val of
        Path _ \<Rightarrow> Inl (make_input_err ''Cannot return a SymlinkInfo that uses a NameOrPath::Path(), it must be a NameOrPath::Name()'')
      | Name name \<Rightarrow> Inr \<lparr>sn_name = name, sn_target = si_target val, sn_node_properties = None\<rparr>)"

definition symlink_info_try_from :: "output_symlink \<Rightarrow> symlink_info result" where
  "symlink_info_try_from l = Inr \<lparr>si_name_or_path = Path (os_path l), si_target = os_target l\<rparr>"

definition symlink_info_into_output :: "symlink_info \<Rightarrow> output_symlink result" where
  "symlink_info_into_output val =
     (case si_name_or_path val of
        Path path \<Rightarrow> Inr \<lparr>os_path = path, os_target = si_target val, os_node_properties = None\<rparr>
      | Name _ \<Rightarrow> Inl (make_input_err ''Cannot return a SymlinkInfo that uses a NameOrPath::Name(), it must be a NameOrPath::Path()''))"

record directory_info =
  di_path :: string
  di_tree_digest :: digest_info

record output_directory =
  od_path :: string
  od_tree_digest :: "proto_digest option"
  od_is_topologically_sorted :: bool

definition directory_info_try_from :: "hex_crate \<Rightarrow> output_directory \<Rightarrow> directory_info result" where
  "directory_info_try_from hx d =
     try_bind (err_tip_option ''Expected tree_digest to exist in OutputDirectory'' (od_tree_digest d)) (\<lambda>pd.
     try_bind (digest_try_from hx pd) (\<lambda>td.
     Inr \<lparr>di_path = od_path d, di_tree_digest = td\<rparr>))"

definition directory_info_into_output :: "hex_crate \<Rightarrow> directory_info \<Rightarrow> output_directory" where
  "directory_info_into_output hx val =
     \<lparr>od_path = di_path val, od_tree_digest = Some (digest_into_proto hx (di_tree_digest val)),
      od_is_topologically_sorted = False\<rparr>"

section \<open>Execution metadata\<close>

record execution_metadata =
  worker :: string
  queued_timestamp :: system_time
  worker_start_timestamp :: system_time
  worker_completed_timestamp :: system_time
  input_fetch_start_timestamp :: system_time
  input_fetch_completed_timestamp :: system_time
  execution_start_timestamp :: system_time
  execution_completed_timestamp :: system_time
  output_upload_start_timestamp :: system_time
  output_upload_completed_timestamp :: system_time

definition execution_metadata_default :: execution_metadata where
  "execution_metadata_default =
     \<lparr>worker = [], queued_timestamp = 0, worker_start_timestamp = 0, worker_completed_timestamp = 0,
      input_fetch_start_timestamp = 0, input_fetch_completed_timestamp = 0,
      execution_start_timestamp = 0, execution_completed_timestamp = 0,
      output_upload_start_timestamp = 0, output_upload_completed_timestamp = 0\<rparr>"

text \<open>
  A protobuf timestamp or duration is its seconds and nanoseconds. The conversions are those of
  \<^verbatim>\<open>prost-types\<close>: \<open>timestamp_of\<close> from a \<^verbatim>\<open>SystemTime\<close>, \<open>timestamp_try\<close> back, \<open>duration_try_of\<close> from a
  \<^verbatim>\<open>Duration\<close>.
\<close>

type_synonym timestamp = "int \<times> int"

record prost_time =
  timestamp_of :: "system_time \<Rightarrow> timestamp"
  timestamp_try :: "timestamp \<Rightarrow> string + system_time"
  duration_try_of :: "duration \<Rightarrow> (int \<times> int) option"

record executed_action_metadata =
  eam_worker :: string
  eam_queued :: "timestamp option"
  eam_worker_start :: "timestamp option"
  eam_worker_completed :: "timestamp option"
  eam_input_fetch_start :: "timestamp option"
  eam_input_fetch_completed :: "timestamp option"
  eam_execution_start :: "timestamp option"
  eam_execution_completed :: "timestamp option"
  eam_virtual_execution_duration :: "(int \<times> int) option"
  eam_output_upload_start :: "timestamp option"
  eam_output_upload_completed :: "timestamp option"
  eam_auxiliary_metadata :: "any_msg list"

definition execution_metadata_into :: "prost_time \<Rightarrow> execution_metadata \<Rightarrow> executed_action_metadata" where
  "execution_metadata_into px val =
     \<lparr>eam_worker = worker val,
      eam_queued = Some (timestamp_of px (queued_timestamp val)),
      eam_worker_start = Some (timestamp_of px (worker_start_timestamp val)),
      eam_worker_completed = Some (timestamp_of px (worker_completed_timestamp val)),
      eam_input_fetch_start = Some (timestamp_of px (input_fetch_start_timestamp val)),
      eam_input_fetch_completed = Some (timestamp_of px (input_fetch_completed_timestamp val)),
      eam_execution_start = Some (timestamp_of px (execution_start_timestamp val)),
      eam_execution_completed = Some (timestamp_of px (execution_completed_timestamp val)),
      eam_virtual_execution_duration =
        Option.bind (duration_since (execution_completed_timestamp val) (execution_start_timestamp val))
          (duration_try_of px),
      eam_output_upload_start = Some (timestamp_of px (output_upload_start_timestamp val)),
      eam_output_upload_completed = Some (timestamp_of px (output_upload_completed_timestamp val)),
      eam_auxiliary_metadata = []\<rparr>"

text \<open>One field: it must be there, and convert; the error of the conversion has its own code.\<close>

definition timestamp_field :: "prost_time \<Rightarrow> string \<Rightarrow> timestamp option \<Rightarrow> system_time result" where
  "timestamp_field px tip x =
     try_bind (err_tip_option tip x) (\<lambda>ts.
     case timestamp_try px ts of
       Inl e \<Rightarrow> Inl (error_from_std_err InvalidArgument [e])
     | Inr t \<Rightarrow> Inr t)"

definition execution_metadata_try_from ::
  "prost_time \<Rightarrow> executed_action_metadata \<Rightarrow> execution_metadata result" where
  "execution_metadata_try_from px eam =
     try_bind (timestamp_field px ''Expected queued_timestamp to exist in ExecutedActionMetadata''
       (eam_queued eam)) (\<lambda>queued.
     try_bind (timestamp_field px ''Expected worker_start_timestamp to exist in ExecutedActionMetadata''
       (eam_worker_start eam)) (\<lambda>wstart.
     try_bind (timestamp_field px ''Expected worker_completed_timestamp to exist in ExecutedActionMetadata''
       (eam_worker_completed eam)) (\<lambda>wdone.
     try_bind (timestamp_field px ''Expected input_fetch_start_timestamp to exist in ExecutedActionMetadata''
       (eam_input_fetch_start eam)) (\<lambda>istart.
     try_bind (timestamp_field px ''Expected input_fetch_completed_timestamp to exist in ExecutedActionMetadata''
       (eam_input_fetch_completed eam)) (\<lambda>idone.
     try_bind (timestamp_field px ''Expected execution_start_timestamp to exist in ExecutedActionMetadata''
       (eam_execution_start eam)) (\<lambda>estart.
     try_bind (timestamp_field px ''Expected execution_completed_timestamp to exist in ExecutedActionMetadata''
       (eam_execution_completed eam)) (\<lambda>edone.
     try_bind (timestamp_field px ''Expected output_upload_start_timestamp to exist in ExecutedActionMetadata''
       (eam_output_upload_start eam)) (\<lambda>ostart.
     try_bind (timestamp_field px ''Expected output_upload_completed_timestamp to exist in ExecutedActionMetadata''
       (eam_output_upload_completed eam)) (\<lambda>odone.
     Inr \<lparr>worker = eam_worker eam, queued_timestamp = queued, worker_start_timestamp = wstart,
       worker_completed_timestamp = wdone, input_fetch_start_timestamp = istart,
       input_fetch_completed_timestamp = idone, execution_start_timestamp = estart,
       execution_completed_timestamp = edone, output_upload_start_timestamp = ostart,
       output_upload_completed_timestamp = odone\<rparr>)))))))))"

section \<open>Action results\<close>

definition INTERNAL_ERROR_EXIT_CODE :: i32 where
  "INTERNAL_ERROR_EXIT_CODE = -178"

record action_result =
  output_files :: "file_info list"
  output_folders :: "directory_info list"
  output_directory_symlinks :: "symlink_info list"
  output_file_symlinks :: "symlink_info list"
  exit_code :: i32
  stdout_digest :: digest_info
  stderr_digest :: digest_info
  ar_execution_metadata :: execution_metadata
  server_logs :: "(string \<times> digest_info) list"
  ar_error :: "Error option"
  ar_message :: string

definition action_result_default :: action_result where
  "action_result_default =
     \<lparr>output_files = [], output_folders = [], output_directory_symlinks = [],
      output_file_symlinks = [], exit_code = INTERNAL_ERROR_EXIT_CODE,
      stdout_digest = DigestInfo (replicate 32 0) 0, stderr_digest = DigestInfo (replicate 32 0) 0,
      ar_execution_metadata = execution_metadata_default, server_logs = [], ar_error = None,
      ar_message = []\<rparr>"

record proto_action_result =
  par_output_files :: "output_file list"
  par_output_file_symlinks :: "output_symlink list"
  par_output_symlinks :: "output_symlink list"
  par_output_directories :: "output_directory list"
  par_output_directory_symlinks :: "output_symlink list"
  par_exit_code :: i32
  par_stdout_raw :: bytes
  par_stdout_digest :: "proto_digest option"
  par_stderr_raw :: bytes
  par_stderr_digest :: "proto_digest option"
  par_execution_metadata :: "executed_action_metadata option"

definition proto_action_result_try_from ::
  "hex_crate \<Rightarrow> prost_time \<Rightarrow> action_result \<Rightarrow> proto_action_result result" where
  "proto_action_result_try_from hx px val =
     (let symlinks = output_file_symlinks val @ output_directory_symlinks val in
      try_bind (collect_results (file_info_into_output hx) (output_files val)) (\<lambda>files.
      try_bind (collect_results symlink_info_into_output (output_file_symlinks val)) (\<lambda>file_links.
      try_bind (collect_results symlink_info_into_output symlinks) (\<lambda>links.
      try_bind (collect_results symlink_info_into_output (output_directory_symlinks val)) (\<lambda>dir_links.
      Inr \<lparr>par_output_files = files, par_output_file_symlinks = file_links,
        par_output_symlinks = links,
        par_output_directories = map (directory_info_into_output hx) (output_folders val),
        par_output_directory_symlinks = dir_links, par_exit_code = exit_code val,
        par_stdout_raw = [], par_stdout_digest = Some (digest_into_proto hx (stdout_digest val)),
        par_stderr_raw = [], par_stderr_digest = Some (digest_into_proto hx (stderr_digest val)),
        par_execution_metadata = Some (execution_metadata_into px (ar_execution_metadata val))\<rparr>)))))"

definition action_result_try_from ::
  "hex_crate \<Rightarrow> prost_time \<Rightarrow> proto_action_result \<Rightarrow> action_result result" where
  "action_result_try_from hx px val =
     try_bind (collect_results
       (\<lambda>l. err_tip ''Output File Symlinks could not be converted to SymlinkInfo'' (symlink_info_try_from l))
       (par_output_file_symlinks val)) (\<lambda>file_links.
     try_bind (collect_results
       (\<lambda>l. err_tip ''Output File Symlinks could not be converted to SymlinkInfo'' (symlink_info_try_from l))
       (par_output_directory_symlinks val)) (\<lambda>dir_links.
     try_bind (collect_results
       (\<lambda>f. err_tip ''Output File could not be converted'' (file_info_try_from hx f))
       (par_output_files val)) (\<lambda>files.
     try_bind (collect_results
       (\<lambda>d. err_tip ''Output File could not be converted'' (directory_info_try_from hx d))
       (par_output_directories val)) (\<lambda>folders.
     try_bind (err_tip_option ''Expected stdout_digest to be set on ExecuteResponse msg''
       (par_stdout_digest val)) (\<lambda>pout.
     try_bind (digest_try_from hx pout) (\<lambda>out.
     try_bind (err_tip_option ''Expected stderr_digest to be set on ExecuteResponse msg''
       (par_stderr_digest val)) (\<lambda>perr.
     try_bind (digest_try_from hx perr) (\<lambda>err.
     try_bind (err_tip_option ''Expected execution_metadata to be set on ExecuteResponse msg''
       (par_execution_metadata val)) (\<lambda>eam.
     try_bind (execution_metadata_try_from px eam) (\<lambda>em.
     Inr \<lparr>output_files = files, output_folders = folders, output_directory_symlinks = dir_links,
       output_file_symlinks = file_links, exit_code = par_exit_code val, stdout_digest = out,
       stderr_digest = err, ar_execution_metadata = em, server_logs = [], ar_error = None,
       ar_message = []\<rparr>))))))))))"

section \<open>Stages\<close>

datatype ActionStage =
    Unknown | CacheCheck | Queued | Executing
  | Completed action_result
  | CompletedFromCache proto_action_result

fun has_action_result :: "ActionStage \<Rightarrow> bool" where
  "has_action_result Unknown = False"
| "has_action_result CacheCheck = False"
| "has_action_result Queued = False"
| "has_action_result Executing = False"
| "has_action_result (Completed _) = True"
| "has_action_result (CompletedFromCache _) = True"

definition is_finished :: "ActionStage \<Rightarrow> bool" where
  "is_finished s = has_action_result s"

fun is_same_stage :: "ActionStage \<Rightarrow> ActionStage \<Rightarrow> bool" where
  "is_same_stage Unknown Unknown = True"
| "is_same_stage CacheCheck CacheCheck = True"
| "is_same_stage Queued Queued = True"
| "is_same_stage Executing Executing = True"
| "is_same_stage (Completed _) (Completed _) = True"
| "is_same_stage (CompletedFromCache _) (CompletedFromCache _) = True"
| "is_same_stage _ _ = False"

fun stage_name :: "ActionStage \<Rightarrow> string" where
  "stage_name Unknown = ''Unknown''"
| "stage_name CacheCheck = ''CacheCheck''"
| "stage_name Queued = ''Queued''"
| "stage_name Executing = ''Executing''"
| "stage_name (Completed _) = ''Completed''"
| "stage_name (CompletedFromCache _) = ''CompletedFromCache''"

text \<open>The numbers of \<^verbatim>\<open>ExecutionStage.Value\<close>.\<close>

fun execution_stage_value :: "ActionStage \<Rightarrow> int" where
  "execution_stage_value Unknown = 0"
| "execution_stage_value CacheCheck = 1"
| "execution_stage_value Queued = 2"
| "execution_stage_value Executing = 3"
| "execution_stage_value (Completed _) = 4"
| "execution_stage_value (CompletedFromCache _) = 4"

section \<open>Execute responses\<close>

record log_file =
  lf_digest :: "proto_digest option"
  lf_human_readable :: bool

record execute_response =
  xr_result :: "proto_action_result option"
  xr_cached_result :: bool
  xr_status :: "rpc_status option"
  xr_server_logs :: "(string \<times> log_file) list"
  xr_message :: string

definition execute_response_default :: execute_response where
  "execute_response_default =
     \<lparr>xr_result = None, xr_cached_result = False, xr_status = None, xr_server_logs = [],
      xr_message = []\<rparr>"

definition status_default :: rpc_status where
  "status_default = \<lparr>st_code = 0, st_message = [], st_details = []\<rparr>"

text \<open>\<^verbatim>\<open>to_execute_response\<close>: a result that does not convert is silently left out.\<close>

definition to_execute_response :: "hex_crate \<Rightarrow> prost_time \<Rightarrow> action_result \<Rightarrow> execute_response" where
  "to_execute_response hx px ar =
     \<lparr>xr_result = (case proto_action_result_try_from hx px ar of Inl _ \<Rightarrow> None | Inr p \<Rightarrow> Some p),
      xr_cached_result = False,
      xr_status = Some (case ar_error ar of None \<Rightarrow> status_default | Some e \<Rightarrow> error_to_rpc_status e),
      xr_server_logs = map (\<lambda>(k, v).
        (k, \<lparr>lf_digest = Some (digest_into_proto hx v), lf_human_readable = False\<rparr>)) (server_logs ar),
      xr_message = ar_message ar\<rparr>"

fun execute_response_from :: "hex_crate \<Rightarrow> prost_time \<Rightarrow> ActionStage \<Rightarrow> execute_response" where
  "execute_response_from hx px (Completed ar) = to_execute_response hx px ar"
| "execute_response_from hx px (CompletedFromCache p) =
     \<lparr>xr_result = Some p, xr_cached_result = True, xr_status = Some status_default,
      xr_server_logs = [], xr_message = []\<rparr>"
| "execute_response_from hx px _ = execute_response_default"

definition action_stage_try_from ::
  "hex_crate \<Rightarrow> prost_time \<Rightarrow> (int \<Rightarrow> Code) \<Rightarrow> execute_response \<Rightarrow> ActionStage result" where
  "action_stage_try_from hx px code_of xr =
     try_bind (err_tip_option ''Expected result to be set on ExecuteResponse msg'' (xr_result xr)) (\<lambda>par.
     try_bind (vec_try_map (file_info_try_from hx) (par_output_files par)) (\<lambda>files.
     try_bind (vec_try_map symlink_info_try_from (par_output_directory_symlinks par)) (\<lambda>dir_links.
     try_bind (vec_try_map symlink_info_try_from (par_output_file_symlinks par)) (\<lambda>file_links.
     try_bind (vec_try_map (directory_info_try_from hx) (par_output_directories par)) (\<lambda>folders.
     try_bind (err_tip_option ''Expected stdout_digest to be set on ExecuteResponse msg''
       (par_stdout_digest par)) (\<lambda>pout.
     try_bind (digest_try_from hx pout) (\<lambda>out.
     try_bind (err_tip_option ''Expected stderr_digest to be set on ExecuteResponse msg''
       (par_stderr_digest par)) (\<lambda>perr.
     try_bind (digest_try_from hx perr) (\<lambda>err.
     try_bind (err_tip_option ''Expected execution_metadata to be set on ExecuteResponse msg''
       (par_execution_metadata par)) (\<lambda>eam.
     try_bind (execution_metadata_try_from px eam) (\<lambda>em.
     try_bind (hashmap_try_map (\<lambda>v.
         try_bind (err_tip_option ''Expected digest to be set on LogFile msg'' (lf_digest v))
           (digest_try_from hx)) (xr_server_logs xr)) (\<lambda>logs.
     let ar = \<lparr>output_files = files, output_folders = folders,
           output_directory_symlinks = dir_links, output_file_symlinks = file_links,
           exit_code = par_exit_code par, stdout_digest = out, stderr_digest = err,
           ar_execution_metadata = em, server_logs = logs,
           ar_error = (case xr_status xr of
             None \<Rightarrow> None
           | Some s \<Rightarrow> if st_code s = 0 then None else Some (error_from_rpc_status code_of s)),
           ar_message = xr_message xr\<rparr>
     in if xr_cached_result xr
        then try_bind (proto_action_result_try_from hx px ar) (\<lambda>p. Inr (CompletedFromCache p))
        else Inr (Completed ar)))))))))))))"

section \<open>Action state and operations\<close>

record action_state =
  stage :: ActionStage
  last_transition_timestamp :: system_time
  client_operation_id :: operation_id
  action_digest :: digest_info

text \<open>\<^verbatim>\<open>PartialEq for ActionState\<close> ignores the time of the last transition.\<close>

definition action_state_eq :: "action_state \<Rightarrow> action_state \<Rightarrow> bool" where
  "action_state_eq a b \<longleftrightarrow>
     stage a = stage b \<and> client_operation_id a = client_operation_id b \<and> action_digest a = action_digest b"

record execute_operation_metadata =
  eom_stage :: int
  eom_action_digest :: "proto_digest option"
  eom_stdout_stream_name :: string
  eom_stderr_stream_name :: string
  eom_partial_execution_metadata :: "executed_action_metadata option"

datatype long_running_result = LrError rpc_status | LrResponse any_msg

record operation =
  op_name :: string
  op_metadata :: "any_msg option"
  op_done :: bool
  op_result :: "long_running_result option"

text \<open>Encoding and decoding of the two messages an operation carries.\<close>

record prost_msgs =
  enc_response :: "execute_response \<Rightarrow> bytes"
  dec_response :: "bytes \<Rightarrow> string + execute_response"
  enc_metadata :: "execute_operation_metadata \<Rightarrow> bytes"
  dec_metadata :: "bytes \<Rightarrow> string + execute_operation_metadata"

definition RESPONSE_URL :: string where
  "RESPONSE_URL = ''type.googleapis.com/build.bazel.remote.execution.v2.ExecuteResponse''"

definition METADATA_URL :: string where
  "METADATA_URL = ''type.googleapis.com/build.bazel.remote.execution.v2.ExecuteOperationMetadata''"

definition to_any :: "string \<Rightarrow> ('m \<Rightarrow> bytes) \<Rightarrow> 'm \<Rightarrow> any_msg" where
  "to_any url enc msg = \<lparr>type_url = url, any_value = enc msg\<rparr>"

definition from_any :: "string \<Rightarrow> (bytes \<Rightarrow> string + 'm) \<Rightarrow> any_msg \<Rightarrow> 'm result" where
  "from_any url dec msg =
     (if type_url msg \<noteq> url then Inl (make_input_err ''Incorrect type when decoding Any. {} != {}'')
      else case dec (any_value msg) of
             Inl e \<Rightarrow> Inl (error_from_std_err Internal [e])
           | Inr m \<Rightarrow> Inr m)"

definition operation_metadata :: "hex_crate \<Rightarrow> action_state \<Rightarrow> execute_operation_metadata" where
  "operation_metadata hx st =
     \<lparr>eom_stage = execution_stage_value (stage st),
      eom_action_digest = Some (digest_into_proto hx (action_digest st)),
      eom_stdout_stream_name = [], eom_stderr_stream_name = [],
      eom_partial_execution_metadata = None\<rparr>"

definition as_operation ::
  "hex_crate \<Rightarrow> prost_time \<Rightarrow> prost_msgs \<Rightarrow> uuid_crate \<Rightarrow> action_state \<Rightarrow> operation_id \<Rightarrow> operation" where
  "as_operation hx px mx ux st cid =
     (let result = (if has_action_result (stage st)
            then Some (LrResponse (to_any RESPONSE_URL (enc_response mx) (execute_response_from hx px (stage st))))
            else None);
          metadata = operation_metadata hx st
      in \<lparr>op_name = into_string ux cid,
          op_metadata = Some (to_any METADATA_URL (enc_metadata mx) metadata),
          op_done = (result \<noteq> None), op_result = result\<rparr>)"

definition try_from_operation ::
  "hex_crate \<Rightarrow> prost_time \<Rightarrow> prost_msgs \<Rightarrow> (int \<Rightarrow> Code) \<Rightarrow> system_time \<Rightarrow> operation \<Rightarrow> operation_id \<Rightarrow>
    action_state result" where
  "try_from_operation hx px mx code_of now op cid =
     try_bind (err_tip_option ''No metadata in upstream operation'' (op_metadata op)) (\<lambda>any.
     try_bind (err_tip ''Could not decode metadata in upstream operation''
       (from_any METADATA_URL (dec_metadata mx) any)) (\<lambda>metadata.
     try_bind
       (if eom_stage metadata = 0 then Inr Unknown
        else if eom_stage metadata = 1 then Inr CacheCheck
        else if eom_stage metadata = 2 then Inr Queued
        else if eom_stage metadata = 3 then Inr Executing
        else if eom_stage metadata = 4 then
          try_bind (err_tip_option ''No result data for completed upstream action'' (op_result op)) (\<lambda>r.
          case r of
            LrError s \<Rightarrow>
              Inr (Completed (action_result_default\<lparr>ar_error := Some (error_from_rpc_status code_of s)\<rparr>))
          | LrResponse resp \<Rightarrow>
              try_bind (err_tip ''Could not decode result structure for completed upstream action''
                (from_any RESPONSE_URL (dec_response mx) resp)) (action_stage_try_from hx px code_of))
        else err_tip ''Could not convert {} to execution_stage::Value''
          (Inl (error_from_std_err Internal [''unknown enumeration value''])))
       (\<lambda>stg.
     try_bind (err_tip_option ''No action_digest in upstream operation'' (eom_action_digest metadata)) (\<lambda>pd.
     try_bind (err_tip ''Could not convert action_digest into DigestInfo'' (digest_try_from hx pd)) (\<lambda>d.
     Inr \<lparr>stage = stg, last_transition_timestamp = now, client_operation_id = cid,
       action_digest = d\<rparr>)))))"

section \<open>Round trips\<close>

definition prost_time_ok :: "prost_time \<Rightarrow> bool" where
  "prost_time_ok px \<longleftrightarrow> (\<forall>t. timestamp_try px (timestamp_of px t) = Inr t)"

fun is_path :: "name_or_path \<Rightarrow> bool" where
  "is_path (Path _) = True"
| "is_path (Name _) = False"

text \<open>
  A result a worker may report: its outputs are named by path, and its digests fit the protobuf
  digest.
\<close>

definition all_paths :: "action_result \<Rightarrow> bool" where
  "all_paths ar \<longleftrightarrow>
     list_all (\<lambda>f. is_path (fi_name_or_path f)) (output_files ar) \<and>
     list_all (\<lambda>l. is_path (si_name_or_path l)) (output_file_symlinks ar) \<and>
     list_all (\<lambda>l. is_path (si_name_or_path l)) (output_directory_symlinks ar)"

definition digests_small :: "action_result \<Rightarrow> bool" where
  "digests_small ar \<longleftrightarrow>
     list_all (\<lambda>f. digest_small (fi_digest f)) (output_files ar) \<and>
     list_all (\<lambda>d. digest_small (di_tree_digest d)) (output_folders ar) \<and>
     list_all (\<lambda>(k, d). digest_small d) (server_logs ar) \<and>
     digest_small (stdout_digest ar) \<and> digest_small (stderr_digest ar)"

lemma file_roundtrip:
  assumes "hex_ok hx" "is_path (fi_name_or_path f)" "digest_small (fi_digest f)"
  shows "\<exists>o'. file_info_into_output hx f = Inr o' \<and> file_info_try_from hx o' = Inr f"
  using assms by (cases "fi_name_or_path f")
    (auto simp: file_info_into_output_def file_info_try_from_def)

lemma symlink_roundtrip:
  assumes "is_path (si_name_or_path l)"
  shows "\<exists>o'. symlink_info_into_output l = Inr o' \<and> symlink_info_try_from o' = Inr l"
  using assms by (cases "si_name_or_path l")
    (auto simp: symlink_info_into_output_def symlink_info_try_from_def)

lemma directory_roundtrip:
  "hex_ok hx \<Longrightarrow> digest_small (di_tree_digest d) \<Longrightarrow>
     directory_info_try_from hx (directory_info_into_output hx d) = Inr d"
  by (simp add: directory_info_try_from_def directory_info_into_output_def)

lemma metadata_roundtrip:
  "prost_time_ok px \<Longrightarrow> execution_metadata_try_from px (execution_metadata_into px m) = Inr m"
  by (simp add: execution_metadata_try_from_def execution_metadata_into_def timestamp_field_def
      prost_time_ok_def)

lemma symlink_fails:
  "\<not> is_path (si_name_or_path l) \<Longrightarrow> \<exists>e. symlink_info_into_output l = Inl e"
  by (cases "si_name_or_path l") (auto simp: symlink_info_into_output_def)

lemma file_fails: "\<not> is_path (fi_name_or_path f) \<Longrightarrow> \<exists>e. file_info_into_output hx f = Inl e"
  by (cases "fi_name_or_path f") (auto simp: file_info_into_output_def)

lemma collect_results_fails:
  "collect_results f xs = Inr ys \<Longrightarrow> (\<And>x. \<not> P x \<Longrightarrow> \<exists>e. f x = Inl e) \<Longrightarrow> list_all P xs"
proof (induction xs arbitrary: ys)
  case (Cons x xs)
  from Cons.prems(1) obtain y zs where "f x = Inr y" "collect_results f xs = Inr zs"
    by (auto split: sum.splits)
  with Cons.IH [of zs] Cons.prems(2) [of x] Cons.prems(2) show ?case by auto
qed simp

lemma collect_results_append:
  "collect_results f xs = Inr as \<Longrightarrow> collect_results f ys = Inr bs \<Longrightarrow>
     collect_results f (xs @ ys) = Inr (as @ bs)"
  by (simp add: collect_results_Inr_iff list_all2_appendI)

text \<open>The conversion of a well-named result, spelled out.\<close>

definition proto_of ::
  "hex_crate \<Rightarrow> prost_time \<Rightarrow> action_result \<Rightarrow> output_file list \<Rightarrow> output_symlink list \<Rightarrow>
    output_symlink list \<Rightarrow> proto_action_result" where
  "proto_of hx px ar files fl dl =
      \<lparr>par_output_files = files, par_output_file_symlinks = fl, par_output_symlinks = fl @ dl,
       par_output_directories = map (directory_info_into_output hx) (output_folders ar),
       par_output_directory_symlinks = dl, par_exit_code = exit_code ar, par_stdout_raw = [],
       par_stdout_digest = Some (digest_into_proto hx (stdout_digest ar)), par_stderr_raw = [],
       par_stderr_digest = Some (digest_into_proto hx (stderr_digest ar)),
       par_execution_metadata = Some (execution_metadata_into px (ar_execution_metadata ar))\<rparr>"

lemma proto_action_result_spec:
  assumes "hex_ok hx" "all_paths ar" "digests_small ar"
  obtains files fl dl where
    "proto_action_result_try_from hx px ar = Inr (proto_of hx px ar files fl dl)"
    "collect_results (file_info_try_from hx) files = Inr (output_files ar)"
    "collect_results symlink_info_try_from fl = Inr (output_file_symlinks ar)"
    "collect_results symlink_info_try_from dl = Inr (output_directory_symlinks ar)"
    "collect_results (directory_info_try_from hx)
      (map (directory_info_into_output hx) (output_folders ar)) = Inr (output_folders ar)"
proof -
  obtain files where files: "collect_results (file_info_into_output hx) (output_files ar) = Inr files"
    "collect_results (file_info_try_from hx) files = Inr (output_files ar)"
    using collect_results_roundtrip [of "output_files ar" "file_info_into_output hx" "file_info_try_from hx"]
      file_roundtrip [OF assms(1)] assms(2,3)
    by (auto simp: all_paths_def digests_small_def list_all_iff)
  obtain fl where fl: "collect_results symlink_info_into_output (output_file_symlinks ar) = Inr fl"
    "collect_results symlink_info_try_from fl = Inr (output_file_symlinks ar)"
    using collect_results_roundtrip [of "output_file_symlinks ar", OF symlink_roundtrip] assms(2)
    by (auto simp: all_paths_def list_all_iff)
  obtain dl where dl: "collect_results symlink_info_into_output (output_directory_symlinks ar) = Inr dl"
    "collect_results symlink_info_try_from dl = Inr (output_directory_symlinks ar)"
    using collect_results_roundtrip [of "output_directory_symlinks ar", OF symlink_roundtrip] assms(2)
    by (auto simp: all_paths_def list_all_iff)
  have "collect_results (directory_info_try_from hx)
      (map (directory_info_into_output hx) (output_folders ar)) = Inr (output_folders ar)"
    using assms(1,3)
    by (auto simp: collect_results_Inr_iff digests_small_def list_all_iff directory_roundtrip
        list_all2_conv_all_nth)
  with files fl dl collect_results_append [OF fl(1) dl(1)] show thesis
    by (intro that [of files fl dl]) (simp_all add: proto_action_result_try_from_def proto_of_def)
qed

lemma collect_err_tip:
  "collect_results (\<lambda>x. err_tip tip (f x)) xs = Inr ys \<longleftrightarrow> collect_results f xs = Inr ys"
  by (simp add: collect_results_Inr_iff)

lemma server_logs_roundtrip:
  assumes "hex_ok hx" "list_all (\<lambda>(k, d). digest_small d) logs"
  shows "hashmap_try_map
      (\<lambda>v. try_bind (err_tip_option tip (lf_digest v)) (digest_try_from hx))
      (map (\<lambda>(k, v). (k, \<lparr>lf_digest = Some (digest_into_proto hx v), lf_human_readable = False\<rparr>)) logs)
    = Inr logs"
  using assms(2) by (induction logs) (auto simp: hashmap_try_map_def assms(1))

text \<open>What a client gets back of an error: its messages joined, and none when the code is \<^verbatim>\<open>Ok\<close>.\<close>

definition wire_error :: "Error option \<Rightarrow> Error option" where
  "wire_error e =
     (case e of
        None \<Rightarrow> None
      | Some e \<Rightarrow> if err_code e = Ok then None else Some (e\<lparr>err_messages := [message_string e]\<rparr>))"

lemma code_as_i32_zero [simp]: "code_as_i32 c = 0 \<longleftrightarrow> c = Ok"
  by (cases c) auto

lemma stage_completed_roundtrip:
  assumes "hex_ok hx" "prost_time_ok px" "\<forall>c. code_of (code_as_i32 c) = c"
    and "all_paths ar" "digests_small ar"
  shows "action_stage_try_from hx px code_of (execute_response_from hx px (Completed ar)) =
    Inr (Completed (ar\<lparr>ar_error := wire_error (ar_error ar)\<rparr>))"
proof -
  obtain files fl dl where p: "proto_action_result_try_from hx px ar = Inr (proto_of hx px ar files fl dl)"
    "collect_results (file_info_try_from hx) files = Inr (output_files ar)"
    "collect_results symlink_info_try_from fl = Inr (output_file_symlinks ar)"
    "collect_results symlink_info_try_from dl = Inr (output_directory_symlinks ar)"
    "collect_results (directory_info_try_from hx)
      (map (directory_info_into_output hx) (output_folders ar)) = Inr (output_folders ar)"
    using proto_action_result_spec [OF assms(1,4,5)] .
  have small: "digest_small (stdout_digest ar)" "digest_small (stderr_digest ar)"
    "list_all (\<lambda>(k, d). digest_small d) (server_logs ar)"
    using assms(5) by (simp_all add: digests_small_def)
  have err: "(case xr_status (to_execute_response hx px ar) of
       None \<Rightarrow> None
     | Some s \<Rightarrow> if st_code s = 0 then None else Some (error_from_rpc_status code_of s)) =
     wire_error (ar_error ar)"
    using assms(3) by (auto simp: to_execute_response_def status_default_def wire_error_def
        error_to_rpc_status_def error_from_rpc_status_def split: option.splits)
  have xr: "xr_result (to_execute_response hx px ar) = Some (projr (proto_action_result_try_from hx px ar))"
    "\<not> xr_cached_result (to_execute_response hx px ar)"
    "xr_message (to_execute_response hx px ar) = ar_message ar"
    "xr_server_logs (to_execute_response hx px ar) = map (\<lambda>(k, v).
        (k, \<lparr>lf_digest = Some (digest_into_proto hx v), lf_human_readable = False\<rparr>)) (server_logs ar)"
    using p(1) by (simp_all add: to_execute_response_def)
  show ?thesis
    unfolding execute_response_from.simps action_stage_try_from_def xr err
    by (simp add: xr p proto_of_def vec_try_map_def small assms(1) metadata_roundtrip [OF assms(2)]
        server_logs_roundtrip)
qed

lemma proto_action_result_all_paths:
  "proto_action_result_try_from hx px ar = Inr p \<Longrightarrow> all_paths ar"
  by (auto simp: proto_action_result_try_from_def all_paths_def Let_def
      dest: collect_results_fails [where P = "\<lambda>f. is_path (fi_name_or_path f)", OF _ file_fails]
        collect_results_fails [where P = "\<lambda>l. is_path (si_name_or_path l)", OF _ symlink_fails])

lemma action_result_roundtrip:
  assumes "hex_ok hx" "prost_time_ok px" "all_paths ar" "digests_small ar"
  shows "\<exists>p. proto_action_result_try_from hx px ar = Inr p \<and>
    action_result_try_from hx px p = Inr (ar\<lparr>server_logs := [], ar_error := None, ar_message := []\<rparr>)"
proof -
  have small: "digest_small (stdout_digest ar)" "digest_small (stderr_digest ar)"
    using assms(4) by (simp_all add: digests_small_def)
  obtain files fl dl where p: "proto_action_result_try_from hx px ar = Inr (proto_of hx px ar files fl dl)"
    "collect_results (file_info_try_from hx) files = Inr (output_files ar)"
    "collect_results symlink_info_try_from fl = Inr (output_file_symlinks ar)"
    "collect_results symlink_info_try_from dl = Inr (output_directory_symlinks ar)"
    "collect_results (directory_info_try_from hx)
      (map (directory_info_into_output hx) (output_folders ar)) = Inr (output_folders ar)"
    using proto_action_result_spec [OF assms(1,3,4)] .
  have "action_result_try_from hx px (proto_of hx px ar files fl dl) =
      Inr (ar\<lparr>server_logs := [], ar_error := None, ar_message := []\<rparr>)"
    by (simp add: action_result_try_from_def proto_of_def collect_err_tip p small assms(1)
        metadata_roundtrip [OF assms(2)])
  with p(1) show ?thesis by blast
qed

text \<open>A cached result that the server itself encoded comes back unchanged.\<close>

lemma stage_cached_roundtrip:
  assumes "hex_ok hx" "prost_time_ok px" "all_paths ar" "digests_small ar"
    and "proto_action_result_try_from hx px ar = Inr p"
  shows "action_stage_try_from hx px code_of (execute_response_from hx px (CompletedFromCache p)) =
    Inr (CompletedFromCache p)"
proof -
  obtain files fl dl where p: "proto_action_result_try_from hx px ar = Inr (proto_of hx px ar files fl dl)"
    "collect_results (file_info_try_from hx) files = Inr (output_files ar)"
    "collect_results symlink_info_try_from fl = Inr (output_file_symlinks ar)"
    "collect_results symlink_info_try_from dl = Inr (output_directory_symlinks ar)"
    "collect_results (directory_info_try_from hx)
      (map (directory_info_into_output hx) (output_folders ar)) = Inr (output_folders ar)"
    using proto_action_result_spec [OF assms(1,3,4)] .
  have small: "digest_small (stdout_digest ar)" "digest_small (stderr_digest ar)"
    using assms(4) by (simp_all add: digests_small_def)
  from p(1) assms(5) have p_eq: "p = proto_of hx px ar files fl dl" by simp
  have again: "proto_action_result_try_from hx px
      \<lparr>output_files = output_files ar, output_folders = output_folders ar,
       output_directory_symlinks = output_directory_symlinks ar,
       output_file_symlinks = output_file_symlinks ar, exit_code = exit_code ar,
       stdout_digest = stdout_digest ar, stderr_digest = stderr_digest ar,
       ar_execution_metadata = ar_execution_metadata ar, server_logs = [], ar_error = None,
       ar_message = []\<rparr> = Inr p"
    using assms(5) by (simp add: proto_action_result_try_from_def)
  have fields: "par_output_files p = files" "par_output_file_symlinks p = fl"
    "par_output_directories p = map (directory_info_into_output hx) (output_folders ar)"
    "par_output_directory_symlinks p = dl" "par_exit_code p = exit_code ar"
    "par_stdout_digest p = Some (digest_into_proto hx (stdout_digest ar))"
    "par_stderr_digest p = Some (digest_into_proto hx (stderr_digest ar))"
    "par_execution_metadata p = Some (execution_metadata_into px (ar_execution_metadata ar))"
    by (simp_all add: p_eq proto_of_def)
  show ?thesis
    unfolding execute_response_from.simps action_stage_try_from_def
    by (simp add: status_default_def vec_try_map_def small assms(1) metadata_roundtrip [OF assms(2)]
        hashmap_try_map_def p(2-) fields again)
qed

text \<open>
  The stages whose operation a client can decode, and what it decodes: a finished action's error
  comes back as \<^const>\<open>wire_error\<close> has it.
\<close>

fun stage_ok :: "hex_crate \<Rightarrow> prost_time \<Rightarrow> ActionStage \<Rightarrow> bool" where
  "stage_ok hx px (Completed ar) \<longleftrightarrow> all_paths ar \<and> digests_small ar"
| "stage_ok hx px (CompletedFromCache p) \<longleftrightarrow>
     (\<exists>ar. all_paths ar \<and> digests_small ar \<and> proto_action_result_try_from hx px ar = Inr p)"
| "stage_ok hx px _ \<longleftrightarrow> True"

fun wire_stage :: "ActionStage \<Rightarrow> ActionStage" where
  "wire_stage (Completed ar) = Completed (ar\<lparr>ar_error := wire_error (ar_error ar)\<rparr>)"
| "wire_stage s = s"

lemma stage_roundtrip:
  assumes "hex_ok hx" "prost_time_ok px" "\<forall>c. code_of (code_as_i32 c) = c"
    and "stage_ok hx px s" "has_action_result s"
  shows "action_stage_try_from hx px code_of (execute_response_from hx px s) = Inr (wire_stage s)"
  using assms(4,5) stage_completed_roundtrip [OF assms(1-3)] stage_cached_roundtrip [OF assms(1,2)]
  by (cases s) (auto simp del: execute_response_from.simps)

text \<open>
  The encodings of the two messages of an operation decode to the messages.
\<close>

definition messages_ok :: "hex_crate \<Rightarrow> prost_time \<Rightarrow> prost_msgs \<Rightarrow> action_state \<Rightarrow> bool" where
  "messages_ok hx px mx st \<longleftrightarrow>
     (let r = execute_response_from hx px (stage st); m = operation_metadata hx st in
      dec_response mx (enc_response mx r) = Inr r \<and> dec_metadata mx (enc_metadata mx m) = Inr m)"

text \<open>
  C17. The operation a scheduler shows to a client decodes to the state it was made from: the same
  stage, with the result, logs and exit code of a finished action intact, and the same action
  digest. It is marked done exactly when the action is finished. An error comes back with its
  messages joined.
\<close>

theorem operation_roundtrip:
  assumes "hex_ok hx" "prost_time_ok px" "\<forall>c. code_of (code_as_i32 c) = c"
    and "messages_ok hx px mx st" "stage_ok hx px (stage st)" "digest_small (action_digest st)"
  shows "op_done (as_operation hx px mx ux st cid) = is_finished (stage st) \<and>
    try_from_operation hx px mx code_of now (as_operation hx px mx ux st cid) cid' =
      Inr (st\<lparr>stage := wire_stage (stage st), last_transition_timestamp := now,
              client_operation_id := cid'\<rparr>)"
proof
  show "op_done (as_operation hx px mx ux st cid) = is_finished (stage st)"
    by (simp add: as_operation_def is_finished_def)
  have m: "dec_metadata mx (enc_metadata mx (operation_metadata hx st)) = Inr (operation_metadata hx st)"
    and r: "dec_response mx (enc_response mx (execute_response_from hx px (stage st))) =
      Inr (execute_response_from hx px (stage st))"
    using assms(4) by (simp_all add: messages_ok_def Let_def)
  have eom: "eom_action_digest (operation_metadata hx st) = Some (digest_into_proto hx (action_digest st))"
    "eom_stage (operation_metadata hx st) = execution_stage_value (stage st)"
    by (simp_all add: operation_metadata_def)
  show "try_from_operation hx px mx code_of now (as_operation hx px mx ux st cid) cid' =
      Inr (st\<lparr>stage := wire_stage (stage st), last_transition_timestamp := now,
              client_operation_id := cid'\<rparr>)"
    using stage_roundtrip [OF assms(1-3,5)] r
    by (cases "stage st")
      (simp_all add: try_from_operation_def as_operation_def from_any_def to_any_def m eom
        assms(1,6) del: execute_response_from.simps)
qed

text \<open>A codec of the time types and of one finished action's messages, to exhibit the assumptions.\<close>

definition demo_time :: prost_time where
  "demo_time =
     \<lparr>timestamp_of = (\<lambda>t. (t div 1000000000, t mod 1000000000)),
      timestamp_try = (\<lambda>(s, n). Inr (s * 1000000000 + n)),
      duration_try_of = (\<lambda>d. Some (int d div 1000000000, int d mod 1000000000))\<rparr>"

lemma demo_time_ok: "prost_time_ok demo_time"
  by (simp add: prost_time_ok_def demo_time_def)

definition demo_result :: action_result where
  "demo_result = action_result_default\<lparr>
     output_files := [\<lparr>fi_name_or_path = Path ''a/b'', fi_digest = demo_digest, fi_is_executable = True\<rparr>],
     output_file_symlinks := [\<lparr>si_name_or_path = Path ''l'', si_target = ''a''\<rparr>],
     exit_code := 3, server_logs := [(''log'', demo_digest)], ar_error := Some demo_error\<rparr>"

definition demo_state :: action_state where
  "demo_state = \<lparr>stage = Completed demo_result, last_transition_timestamp = 5,
     client_operation_id = OpString ''x'', action_digest = demo_digest\<rparr>"

definition demo_msgs :: prost_msgs where
  "demo_msgs =
     \<lparr>enc_response = (\<lambda>_. [1]),
      dec_response = (\<lambda>_. Inr (execute_response_from hex_codec demo_time (stage demo_state))),
      enc_metadata = (\<lambda>_. [2]),
      dec_metadata = (\<lambda>_. Inr (operation_metadata hex_codec demo_state))\<rparr>"

definition demo_uuid :: uuid_crate where
  "demo_uuid =
     \<lparr>uuid_to_string = (\<lambda>u. CHR ''u'' # dec_of_nat (unat u)),
      uuid_parse_str = (\<lambda>s. case s of [] \<Rightarrow> None
        | c # cs \<Rightarrow> if c = CHR ''u'' then map_option of_nat (parse_unsigned 128 cs) else None)\<rparr>"

lemma demo_digest_small: "digest_small demo_digest"
  by (simp add: digest_small_def demo_digest_wf) (simp add: demo_digest_def)

lemma demo_result_ok: "all_paths demo_result" "digests_small demo_result"
  by (simp_all add: all_paths_def digests_small_def demo_result_def action_result_default_def
      demo_digest_small) (simp add: digest_small_def digest_wf_def)

theorem operation_roundtrip_witness:
  "op_done (as_operation hex_codec demo_time demo_msgs demo_uuid demo_state (Uuid 7)) \<and>
   try_from_operation hex_codec demo_time demo_msgs demo_code_of 9
     (as_operation hex_codec demo_time demo_msgs demo_uuid demo_state (Uuid 7)) (OpString ''y'') =
   Inr \<lparr>stage = Completed (demo_result\<lparr>ar_error :=
            Some (not_found_with_detail ''a : b'' \<lparr>type_url = ''MISSING'', any_value = [7]\<rparr>)\<rparr>),
         last_transition_timestamp = 9, client_operation_id = OpString ''y'',
         action_digest = demo_digest\<rparr>"
proof -
  have "messages_ok hex_codec demo_time demo_msgs demo_state"
    by (simp add: messages_ok_def demo_msgs_def Let_def)
  moreover have "stage_ok hex_codec demo_time (stage demo_state)" "digest_small (action_digest demo_state)"
    by (simp_all add: demo_state_def demo_result_ok demo_digest_small)
  moreover have "wire_error (ar_error demo_result) =
      Some (not_found_with_detail ''a : b'' \<lparr>type_url = ''MISSING'', any_value = [7]\<rparr>)"
    by (simp add: demo_result_def wire_error_def demo_error_def not_found_with_detail_def
        error_append_def message_string_def)
  ultimately show ?thesis
    using operation_roundtrip [OF hex_codec_ok demo_time_ok, of demo_code_of demo_msgs demo_state
        demo_uuid "Uuid 7" 9 "OpString ''y''"]
    by (simp add: demo_state_def is_finished_def)
qed

text \<open>
  C34. An action result converts to its protobuf form exactly when every output is named by a path,
  and then converts back to itself, without the logs, error and message the form has no place for.
\<close>

theorem action_result_proto_roundtrip:
  assumes "hex_ok hx" "prost_time_ok px" "digests_small ar"
  shows "(\<exists>p. proto_action_result_try_from hx px ar = Inr p) = all_paths ar \<and>
    (\<forall>p. proto_action_result_try_from hx px ar = Inr p \<longrightarrow>
      action_result_try_from hx px p =
        Inr (ar\<lparr>server_logs := [], ar_error := None, ar_message := []\<rparr>))"
  using action_result_roundtrip [OF assms(1,2) _ assms(3)] proto_action_result_all_paths [of hx px ar]
  by fastforce

theorem action_result_proto_roundtrip_witness:
  "\<exists>p. proto_action_result_try_from hex_codec demo_time demo_result = Inr p \<and>
    action_result_try_from hex_codec demo_time p =
      Inr (demo_result\<lparr>server_logs := [], ar_error := None, ar_message := []\<rparr>)"
  using action_result_proto_roundtrip [OF hex_codec_ok demo_time_ok demo_result_ok(2)] demo_result_ok(1)
  by auto



end
