(* ===== verification/Awaited_Action.thy ===== *)
theory Awaited_Action
  imports Action_Messages
begin

unbundle bit_operations_syntax

text \<open>
  \<^verbatim>\<open>nativelink-scheduler/src/awaited_action_db/awaited_action.rs\<close> and the sorted view of
  \<^verbatim>\<open>awaited_action_db/mod.rs\<close>: the awaited action with its setters, the packed 64-bit sort key, the key
  of the criticality snapshot (\<^verbatim>\<open>ProfileKey\<close> of \<^verbatim>\<open>resource_profile.rs\<close>, \<^verbatim>\<open>CriticalitySnapshot::band\<close> of
  \<^verbatim>\<open>dag_criticality.rs\<close>) and the order of \<^verbatim>\<open>SortedAwaitedAction\<close>. The lemmas show that the packed key
  orders actions by priority, then criticality, then insertion time.
\<close>

section \<open>The sort key\<close>

type_synonym sort_key = u64

definition sort_key_new_with_criticality :: "i32 \<Rightarrow> u8 \<Rightarrow> u32 \<Rightarrow> sort_key" where
  "sort_key_new_with_criticality prio crit ts =
     (let priority_u32 = 0x80000000 + prio;
          inverted_ts_low24 = (ts XOR 0xFFFFFFFF) AND 0x00FFFFFF;
          low32 = push_bit 24 (ucast crit :: u32) OR inverted_ts_low24
      in push_bit 32 (ucast priority_u32 :: u64) OR ucast low32)"

definition sort_key_new :: "i32 \<Rightarrow> u32 \<Rightarrow> sort_key" where
  "sort_key_new prio ts = sort_key_new_with_criticality prio 0 ts"

text \<open>A time before the epoch panics.\<close>

definition sort_key_new_with_unique_key :: "i32 \<Rightarrow> u8 \<Rightarrow> system_time \<Rightarrow> sort_key option" where
  "sort_key_new_with_unique_key prio crit t =
     (case duration_since t 0 of
        None \<Rightarrow> None
      | Some d \<Rightarrow>
          let secs = d div 1000000000;
              ts = (if secs < 2 ^ 32 then of_nat secs else 0xFFFFFFFF :: u32)
          in Some (sort_key_new_with_criticality prio crit ts))"

definition criticality_band :: "sort_key \<Rightarrow> u8" where
  "criticality_band k = ucast (drop_bit 24 k AND 0xFF)"

section \<open>The criticality snapshot\<close>

record profile_key =
  pk_instance_name :: string
  pk_target_id :: string
  pk_action_mnemonic :: string

definition PROFILE_KEY_MAX_STR_LEN :: nat where
  "PROFILE_KEY_MAX_STR_LEN = 256"

text \<open>\<^verbatim>\<open>chars().take(n)\<close> on UTF-8: a continuation byte belongs to the character before it.\<close>

fun take_chars :: "nat \<Rightarrow> string \<Rightarrow> string" where
  "take_chars n [] = []"
| "take_chars n (c # cs) =
     (if 128 \<le> (of_char c :: nat) \<and> (of_char c :: nat) < 192 then c # take_chars n cs
      else case n of 0 \<Rightarrow> [] | Suc m \<Rightarrow> c # take_chars m cs)"

definition clamp_key_str :: "string \<Rightarrow> string" where
  "clamp_key_str s =
     (if length s \<le> PROFILE_KEY_MAX_STR_LEN then s else take_chars PROFILE_KEY_MAX_STR_LEN s)"

definition profile_key_from_parts :: "string \<Rightarrow> string \<Rightarrow> string \<Rightarrow> profile_key option" where
  "profile_key_from_parts instance_name target_id action_mnemonic =
     (if target_id = [] \<or> action_mnemonic = [] then None
      else Some \<lparr>pk_instance_name = clamp_key_str instance_name, pk_target_id = clamp_key_str target_id,
             pk_action_mnemonic = clamp_key_str action_mnemonic\<rparr>)"

type_synonym criticality_snapshot = "profile_key \<rightharpoonup> u8"

definition snapshot_band :: "criticality_snapshot \<Rightarrow> profile_key \<Rightarrow> u8" where
  "snapshot_band bands node = (case bands node of Some b \<Rightarrow> b | None \<Rightarrow> 0)"

section \<open>The awaited action\<close>

record request_metadata =
  rm_target_id :: string
  rm_action_mnemonic :: string

record origin_metadata =
  om_identity :: string
  om_bazel_metadata :: "request_metadata option"

record awaited_action =
  aa_version :: u64
  aa_action_info :: action_info
  aa_operation_id :: operation_id
  aa_sort_key :: sort_key
  aa_last_worker_updated :: system_time
  aa_last_client_keepalive :: system_time
  aa_worker_id :: "worker_id option"
  aa_state :: action_state
  aa_origin_metadata :: "origin_metadata option"
  aa_attempts :: nat

text \<open>
  The baggage of the current tracing context: \<open>None\<close> when it is empty, else the identity it carries
  and the result of decoding its Bazel metadata. The decoding is base64 and protobuf, an argument.
\<close>

record baggage =
  bg_identity :: "string option"
  bg_bazel_metadata :: "string option"

definition origin_metadata_of ::
  "(string \<Rightarrow> request_metadata option) \<Rightarrow> baggage option \<Rightarrow> origin_metadata option" where
  "origin_metadata_of decode bg =
     (case bg of
        None \<Rightarrow> None
      | Some b \<Rightarrow>
          Some \<lparr>om_identity = (case bg_identity b of Some i \<Rightarrow> i | None \<Rightarrow> []),
                om_bazel_metadata = Option.bind (bg_bazel_metadata b) decode\<rparr>)"

definition enqueue_criticality ::
  "action_info \<Rightarrow> origin_metadata option \<Rightarrow> criticality_snapshot option \<Rightarrow> u8" where
  "enqueue_criticality info om dag =
     (case dag of
        None \<Rightarrow> 0
      | Some snap \<Rightarrow>
          let (target_id, mnemonic) =
                (case Option.bind om om_bazel_metadata of
                   None \<Rightarrow> ([], [])
                 | Some bm \<Rightarrow> (rm_target_id bm, rm_action_mnemonic bm))
          in case profile_key_from_parts (auq_instance_name (unique_qualifier info)) target_id mnemonic of
               None \<Rightarrow> 0
             | Some key \<Rightarrow> snapshot_band snap key)"

definition awaited_action_new_with_criticality ::
  "(string \<Rightarrow> request_metadata option) \<Rightarrow> baggage option \<Rightarrow> operation_id \<Rightarrow> action_info \<Rightarrow> system_time \<Rightarrow>
    criticality_snapshot option \<Rightarrow> awaited_action option" where
  "awaited_action_new_with_criticality decode bg op info now dag =
     (let om = origin_metadata_of decode bg in
      case sort_key_new_with_unique_key (priority info) (enqueue_criticality info om dag)
             (insert_timestamp info) of
        None \<Rightarrow> None
      | Some key \<Rightarrow>
          Some \<lparr>aa_version = 0, aa_action_info = info, aa_operation_id = op, aa_sort_key = key,
            aa_last_worker_updated = now, aa_last_client_keepalive = now, aa_worker_id = None,
            aa_state = \<lparr>stage = Queued, last_transition_timestamp = now, client_operation_id = op,
              action_digest = auq_digest (unique_qualifier info)\<rparr>,
            aa_origin_metadata = om, aa_attempts = 0\<rparr>)"

definition increment_version :: "awaited_action \<Rightarrow> awaited_action" where
  "increment_version a = a\<lparr>aa_version := aa_version a + 1\<rparr>"

definition boost_priority :: "awaited_action \<Rightarrow> awaited_action" where
  "boost_priority a = a\<lparr>aa_sort_key := sort_key_new 0x7FFFFFFF 0\<rparr>"

fun stage_is_complete :: "ActionStage \<Rightarrow> bool" where
  "stage_is_complete (Completed _) = True"
| "stage_is_complete (CompletedFromCache _) = True"
| "stage_is_complete _ = False"

definition is_complete :: "awaited_action \<Rightarrow> bool" where
  "is_complete a = stage_is_complete (stage (aa_state a))"

definition worker_keep_alive :: "system_time \<Rightarrow> awaited_action \<Rightarrow> awaited_action" where
  "worker_keep_alive now a = a\<lparr>aa_last_worker_updated := now\<rparr>"

definition update_client_keep_alive :: "system_time \<Rightarrow> awaited_action \<Rightarrow> awaited_action" where
  "update_client_keep_alive now a = a\<lparr>aa_last_client_keepalive := now\<rparr>"

definition set_client_operation_id :: "operation_id \<Rightarrow> awaited_action \<Rightarrow> awaited_action" where
  "set_client_operation_id op a = a\<lparr>aa_state := (aa_state a)\<lparr>client_operation_id := op\<rparr>\<rparr>"

definition set_worker_id :: "worker_id option \<Rightarrow> system_time \<Rightarrow> awaited_action \<Rightarrow> awaited_action" where
  "set_worker_id w now a =
     (if aa_worker_id a \<noteq> w then worker_keep_alive now (a\<lparr>aa_worker_id := w\<rparr>) else a)"

definition worker_set_state :: "action_state \<Rightarrow> system_time \<Rightarrow> awaited_action \<Rightarrow> awaited_action" where
  "worker_set_state st now a = worker_keep_alive now (a\<lparr>aa_state := st\<rparr>)"

section \<open>The sorted view\<close>

datatype sorted_state = SCacheCheck | SQueued | SExecuting | SCompleted

fun sorted_state_try_from :: "ActionStage \<Rightarrow> sorted_state result" where
  "sorted_state_try_from CacheCheck = Inr SCacheCheck"
| "sorted_state_try_from Executing = Inr SExecuting"
| "sorted_state_try_from (Completed _) = Inr SCompleted"
| "sorted_state_try_from Queued = Inr SQueued"
| "sorted_state_try_from _ = Inl (make_input_err ''Invalid State'')"

datatype sorted_awaited_action = SortedAwaitedAction (sa_sort_key: sort_key) (sa_operation_id: operation_id)

text \<open>\<^verbatim>\<open>Ord for SortedAwaitedAction\<close>: the sort key, then the operation id.\<close>

definition sorted_awaited_action_cmp :: "sorted_awaited_action \<Rightarrow> sorted_awaited_action \<Rightarrow> ordering" where
  "sorted_awaited_action_cmp a b =
     then_with (cmp (sa_sort_key a) (sa_sort_key b)) (cmp (sa_operation_id a) (sa_operation_id b))"

instantiation sorted_awaited_action :: linorder
begin

definition less_eq_sorted_awaited_action :: "sorted_awaited_action \<Rightarrow> sorted_awaited_action \<Rightarrow> bool" where
  "a \<le> b \<longleftrightarrow> sorted_awaited_action_cmp a b \<noteq> Greater"

definition less_sorted_awaited_action :: "sorted_awaited_action \<Rightarrow> sorted_awaited_action \<Rightarrow> bool" where
  "a < b \<longleftrightarrow> sorted_awaited_action_cmp a b = Less"

instance
  by standard (auto simp: less_eq_sorted_awaited_action_def less_sorted_awaited_action_def
      sorted_awaited_action_cmp_def cmp_simps sorted_awaited_action.expand)

end

definition sorted_from :: "awaited_action \<Rightarrow> sorted_awaited_action" where
  "sorted_from a = SortedAwaitedAction (aa_sort_key a) (aa_operation_id a)"

section \<open>Facts\<close>

lemma stage_is_complete_iff: "stage_is_complete s = is_finished s"
  by (cases s) (simp_all add: is_finished_def)

lemma sorted_from_sel [simp]:
  "sa_sort_key (sorted_from a) = aa_sort_key a" "sa_operation_id (sorted_from a) = aa_operation_id a"
  by (simp_all add: sorted_from_def)

section \<open>The packed key as a number\<close>

lemma mod_complement:
  fixes t :: nat
  assumes "t < 2 ^ 32"
  shows "(2 ^ 32 - 1 - t) mod 2 ^ 24 = 2 ^ 24 - 1 - t mod 2 ^ 24"
proof -
  define q r where "q = t div 2 ^ 24" and "r = t mod 2 ^ 24"
  have t: "t = q * 2 ^ 24 + r" and r: "r < 2 ^ 24" by (simp_all add: q_def r_def)
  have "q < 256" using assms by (simp add: q_def)
  then have "2 ^ 32 - 1 - t = (255 - q) * 2 ^ 24 + (2 ^ 24 - 1 - r)" using r by (simp add: t)
  then have "(2 ^ 32 - 1 - t) mod 2 ^ 24 = (2 ^ 24 - 1 - r) mod 2 ^ 24" by (simp only: mod_mult_self3)
  then show ?thesis using r by (simp add: r_def)
qed

lemma unat_not_u32: "unat (NOT (w :: u32)) = 2 ^ 32 - 1 - unat w"
proof -
  have "NOT w = of_nat (2 ^ 32 - 1 - unat w)"
    using unat_less_32 [of w] by (simp add: of_nat_diff not_eq_complement)
  then show ?thesis by (simp only:) (subst unat_of_nat_small; simp)
qed

lemma inverted_ts: "unat ((ts XOR 0xFFFFFFFF) AND (0x00FFFFFF :: u32)) = 2 ^ 24 - 1 - unat ts mod 2 ^ 24"
proof -
  have "(ts XOR 0xFFFFFFFF) AND (0x00FFFFFF :: u32) = take_bit 24 (NOT ts)"
  proof -
    have "(0xFFFFFFFF :: u32) = -1" "(0x00FFFFFF :: u32) = mask 24"
      by (simp_all add: mask_eq_exp_minus_1)
    then show ?thesis by (simp only: bit.xor_one_right take_bit_eq_mask)
  qed
  then have "unat ((ts XOR 0xFFFFFFFF) AND (0x00FFFFFF :: u32)) = unat (NOT ts) mod 2 ^ 24"
    by (simp only: unsigned_take_bit_eq) (simp only: take_bit_eq_mod)
  also have "\<dots> = (2 ^ 32 - 1 - unat ts) mod 2 ^ 24" by (simp only: unat_not_u32)
  also have "\<dots> = 2 ^ 24 - 1 - unat ts mod 2 ^ 24" by (rule mod_complement [OF unat_less_32])
  finally show ?thesis .
qed

lemma low32: "unat (push_bit 24 (ucast c :: u32) OR ((ts XOR 0xFFFFFFFF) AND 0x00FFFFFF)) =
   unat (c :: u8) * 2 ^ 24 + (2 ^ 24 - 1 - unat ts mod 2 ^ 24)"
proof -
  have "unat (push_bit 24 (ucast c :: u32)) = unat c * 2 ^ 24"
    using unat_less_8 [of c]
    by (simp only: unsigned_push_bit_eq unsigned_ucast_eq) (simp add: push_bit_eq_mult take_bit_eq_mod)
  then show ?thesis
    by (simp only: unsigned_or_eq inverted_ts) (rule nat_or_disjoint, simp)
qed

lemma unat_sort_key:
  "unat (sort_key_new_with_criticality p c ts) =
     unat (0x80000000 + p) * 2 ^ 32 + (unat c * 2 ^ 24 + (2 ^ 24 - 1 - unat ts mod 2 ^ 24))"
proof -
  define lo where "lo = push_bit 24 (ucast c :: u32) OR ((ts XOR 0xFFFFFFFF) AND 0x00FFFFFF)"
  have lo: "unat lo = unat c * 2 ^ 24 + (2 ^ 24 - 1 - unat ts mod 2 ^ 24)"
    by (simp only: lo_def low32)
  have "unat (ucast lo :: u64) = unat lo"
    using unat_less_32 [of lo] by (simp only: unsigned_ucast_eq) (simp add: take_bit_nat_eq_self)
  moreover have "unat (push_bit 32 (ucast q :: u64)) = unat q * 2 ^ 32" for q :: u32
    using unat_less_32 [of q]
    by (simp only: unsigned_push_bit_eq unsigned_ucast_eq) (simp add: push_bit_eq_mult take_bit_eq_mod)
  ultimately have "unat (sort_key_new_with_criticality p c ts) = unat (0x80000000 + p) * 2 ^ 32 OR unat lo"
    unfolding sort_key_new_with_criticality_def Let_def lo_def [symmetric] by (simp only: unsigned_or_eq)
  also have "\<dots> = unat (0x80000000 + p) * 2 ^ 32 + unat lo"
    by (rule nat_or_disjoint) (rule unat_less_32)
  finally show ?thesis by (simp only: lo)
qed

lemma unat_shifted_priority: "int (unat (0x80000000 + (p :: i32))) = sint p + 2 ^ 31"
proof -
  have r: "- (2 ^ 31) \<le> sint p" "sint p < 2 ^ 31"
    using sint_greater_eq [of p] sint_less [of p] by simp_all
  have "0x80000000 + p = of_int (sint p + 2 ^ 31)" by simp
  then have "uint (0x80000000 + p) = (sint p + 2 ^ 31) mod 2 ^ 32"
    by (simp only: uint_word_of_int) simp
  then show ?thesis using r by simp
qed

lemma lex_sum_less:
  fixes a b a' b' k :: nat
  assumes "b < k" "b' < k"
  shows "a * k + b < a' * k + b' \<longleftrightarrow> a < a' \<or> a = a' \<and> b < b'"
proof -
  have "a * k + b < a' * k + b'" if "a < a'"
  proof -
    from that have "Suc a * k \<le> a' * k" by (intro mult_le_mono1) simp
    with assms show ?thesis by simp
  qed
  moreover have "\<not> a * k + b < a' * k + b'" if "a' < a"
  proof -
    from that have "Suc a' * k \<le> a * k" by (intro mult_le_mono1) simp
    with assms show ?thesis by simp
  qed
  ultimately show ?thesis by (metis add_less_cancel_left less_irrefl nat_neq_iff)
qed

lemma sort_key_less_iff:
  "sort_key_new_with_criticality p c t < sort_key_new_with_criticality p' c' t' \<longleftrightarrow>
     sint p < sint p' \<or>
     sint p = sint p' \<and> (c < c' \<or> c = c' \<and> unat t' mod 2 ^ 24 < unat t mod 2 ^ 24)"
proof -
  have lo: "unat c * 2 ^ 24 + (2 ^ 24 - 1 - unat t mod 2 ^ 24) < 2 ^ 32" for c :: u8 and t :: u32
    using unat_less_8 [of c] by simp
  have ts: "2 ^ 24 - 1 - unat t mod 2 ^ 24 < 2 ^ 24" for t :: u32 by simp
  have "unat (0x80000000 + p) < unat (0x80000000 + p') \<longleftrightarrow> sint p < sint p'"
    "unat (0x80000000 + p) = unat (0x80000000 + p') \<longleftrightarrow> sint p = sint p'"
    using unat_shifted_priority [of p] unat_shifted_priority [of p'] by linarith+
  moreover have "2 ^ 24 - 1 - unat t mod 2 ^ 24 < 2 ^ 24 - 1 - unat t' mod 2 ^ 24 \<longleftrightarrow>
      unat t' mod 2 ^ 24 < unat t mod 2 ^ 24"
  proof -
    have "unat t mod 2 ^ 24 < 2 ^ 24" "unat t' mod 2 ^ 24 < 2 ^ 24" by simp_all
    then show ?thesis by linarith
  qed
  ultimately show ?thesis
    by (simp only: word_less_nat_alt unat_sort_key lex_sum_less [OF lo lo] lex_sum_less [OF ts ts]
        word_unat_eq_iff)
qed

lemma criticality_band_new: "criticality_band (sort_key_new_with_criticality p c t) = c"
proof -
  let ?k = "sort_key_new_with_criticality p c t"
  have "unat ?k div 2 ^ 24 = unat (0x80000000 + p) * 2 ^ 8 + unat c"
    by (simp only: unat_sort_key) simp
  then have "unat ?k div 2 ^ 24 mod 2 ^ 8 = unat c"
    using unat_less_8 [of c] by (simp only: mod_mult_self3) simp
  moreover have "drop_bit 24 ?k AND 0xFF = take_bit 8 (drop_bit 24 ?k)"
    by (simp add: take_bit_eq_mask mask_eq_exp_minus_1)
  ultimately have "unat (drop_bit 24 ?k AND 0xFF) = unat c"
    by (simp only: unsigned_take_bit_eq unat_drop_bit_eq) (simp only: take_bit_eq_mod drop_bit_eq_div)
  then have "unat (ucast (drop_bit 24 ?k AND 0xFF) :: u8) = unat c"
    by (simp only: unsigned_ucast_eq) (use unat_less_8 [of c] in \<open>simp add: take_bit_nat_eq_self\<close>)
  then show ?thesis by (simp only: criticality_band_def word_unat_eq_iff)
qed

section \<open>Properties of the sort key\<close>


text \<open>
  C40. The criticality folded into a key is read back from it, and a boosted action sorts before an
  action of the given priority and criticality exactly when that action has a smaller priority than
  the maximum or no criticality.
\<close>

theorem boosted_key_rank:
  "criticality_band (sort_key_new_with_criticality p c t) = c \<and>
   (sort_key_new_with_criticality p c t \<le> aa_sort_key (boost_priority a) \<longleftrightarrow>
      sint p < 2 ^ 31 - 1 \<or> c = 0)"
proof -
  have p: "sint p \<le> 2 ^ 31 - 1" using sint_less [of p] by simp
  have "sort_key_new_with_criticality p c t \<le> aa_sort_key (boost_priority a) \<longleftrightarrow>
      \<not> aa_sort_key (boost_priority a) < sort_key_new_with_criticality p c t"
    by auto
  also have "\<dots> \<longleftrightarrow> sint p < 2 ^ 31 - 1 \<or> c = 0"
    unfolding boost_priority_def sort_key_new_def
    using p by (auto simp: sort_key_less_iff word_gt_0)
  finally show ?thesis by (simp only: criticality_band_new simp_thms)
qed

end
