(* ===== verification/Chunked_Stream.thy ===== *)
theory Chunked_Stream
  imports Nl_Error
begin

text \<open>
  \<^verbatim>\<open>nativelink-util/src/chunked_stream.rs\<close>: a stream over a range of keys that asks a function for the
  next chunk whenever its buffer is empty. A stage of polling is \<^verbatim>\<open>poll_next\<close>; the future of a chunk is
  taken to be ready when it is polled. The lemmas show what a consumer collects from a source that
  hands out a list and then nothing.
\<close>

section \<open>State\<close>

datatype 'a bound = Included 'a | Excluded 'a | Unbounded

text \<open>
  The future of the last chunk stays in place when it ended the stream or failed: it is \<open>spent\<close>, and
  polling it again panics. While a chunk is computed the keys are taken.
\<close>

record ('k, 't) chunked_stream =
  cs_buffer :: "'t list"
  cs_start :: "'k bound"
  cs_end :: "'k bound"
  cs_spent :: bool

definition chunked_stream_new :: "'k bound \<Rightarrow> 'k bound \<Rightarrow> ('k, 't) chunked_stream" where
  "chunked_stream_new lo hi = \<lparr>cs_buffer = [], cs_start = lo, cs_end = hi, cs_spent = False\<rparr>"

type_synonym ('k, 't) chunk = "('k bound \<times> 'k bound \<times> 't list) option result"

datatype 't poll = Item "'t result" | Ended

text \<open>
  \<^verbatim>\<open>poll_next\<close>; \<open>None\<close> is a panic, of the chunk function or of a spent future, or a loop over empty
  chunks longer than the fuel.
\<close>

fun poll_next ::
  "nat \<Rightarrow> ('k bound \<Rightarrow> 'k bound \<Rightarrow> ('k, 't) chunk option) \<Rightarrow> ('k, 't) chunked_stream \<Rightarrow>
    ('t poll \<times> ('k, 't) chunked_stream) option" where
  "poll_next n chunk_fn s =
     (case cs_buffer s of
        item # rest \<Rightarrow> Some (Item (Inr item), s\<lparr>cs_buffer := rest\<rparr>)
      | [] \<Rightarrow>
          if cs_spent s then None
          else case n of
            0 \<Rightarrow> None
          | Suc m \<Rightarrow>
              (case chunk_fn (cs_start s) (cs_end s) of
                 None \<Rightarrow> None
               | Some (Inr (Some (lo, hi, items))) \<Rightarrow>
                   poll_next m chunk_fn (s\<lparr>cs_start := lo, cs_end := hi, cs_buffer := items\<rparr>)
               | Some (Inr None) \<Rightarrow> Some (Ended, s\<lparr>cs_spent := True\<rparr>)
               | Some (Inl e) \<Rightarrow> Some (Item (Inl e), s\<lparr>cs_spent := True\<rparr>)))"

declare poll_next.simps [simp del]

section \<open>Consumers\<close>

text \<open>
  \<^verbatim>\<open>try_filter_map\<close> and collecting: each item is mapped in the current state, which mapping it may
  change and from which the next chunk is read, until the stream ends or fails.
\<close>

fun try_filter_collect ::
  "nat \<Rightarrow> ('s \<Rightarrow> 'k bound \<Rightarrow> 'k bound \<Rightarrow> ('k, 't) chunk option) \<Rightarrow>
    ('t \<Rightarrow> 's \<Rightarrow> ('r option result \<times> 's) option) \<Rightarrow> ('k, 't) chunked_stream \<Rightarrow> 's \<Rightarrow>
    ('r list result \<times> 's) option" where
  "try_filter_collect 0 chunk_fn f s st = None"
| "try_filter_collect (Suc n) chunk_fn f s st =
     (case poll_next (Suc n) (chunk_fn st) s of
        None \<Rightarrow> None
      | Some (Ended, _) \<Rightarrow> Some (Inr [], st)
      | Some (Item (Inl e), _) \<Rightarrow> Some (Inl e, st)
      | Some (Item (Inr t), s) \<Rightarrow>
          (case f t st of
             None \<Rightarrow> None
           | Some (Inl e, st) \<Rightarrow> Some (Inl e, st)
           | Some (Inr r, st) \<Rightarrow>
               map_option (map_prod (map_sum id (\<lambda>rs. (case r of Some x \<Rightarrow> [x] | None \<Rightarrow> []) @ rs)) id)
                 (try_filter_collect n chunk_fn f s st)))"

text \<open>The mapping alone, over a list of items.\<close>

fun filter_items ::
  "('t \<Rightarrow> 's \<Rightarrow> ('r option result \<times> 's) option) \<Rightarrow> 't list \<Rightarrow> 's \<Rightarrow> ('r list result \<times> 's) option" where
  "filter_items f [] st = Some (Inr [], st)"
| "filter_items f (t # ts) st =
     (case f t st of
        None \<Rightarrow> None
      | Some (Inl e, st) \<Rightarrow> Some (Inl e, st)
      | Some (Inr r, st) \<Rightarrow>
          map_option (map_prod (map_sum id (\<lambda>rs. (case r of Some x \<Rightarrow> [x] | None \<Rightarrow> []) @ rs)) id)
            (filter_items f ts st))"

section \<open>What is collected\<close>

lemma poll_next_buffered [simp]:
  "cs_buffer s = item # rest \<Longrightarrow> poll_next n chunk_fn s = Some (Item (Inr item), s\<lparr>cs_buffer := rest\<rparr>)"
  by (simp add: poll_next.simps)

lemma poll_next_spent [simp]: "cs_buffer s = [] \<Longrightarrow> cs_spent s \<Longrightarrow> poll_next n chunk_fn s = None"
  by (simp add: poll_next.simps)

lemma poll_next_end:
  "cs_buffer s = [] \<Longrightarrow> \<not> cs_spent s \<Longrightarrow> chunk_fn (cs_start s) (cs_end s) = Some (Inr None) \<Longrightarrow>
    poll_next (Suc n) chunk_fn s = Some (Ended, s\<lparr>cs_spent := True\<rparr>)"
  by (simp add: poll_next.simps)

lemma poll_next_chunk:
  "cs_buffer s = [] \<Longrightarrow> \<not> cs_spent s \<Longrightarrow>
    chunk_fn (cs_start s) (cs_end s) = Some (Inr (Some (lo, hi, item # items))) \<Longrightarrow>
    poll_next (Suc n) chunk_fn s =
      Some (Item (Inr item), s\<lparr>cs_start := lo, cs_end := hi, cs_buffer := items\<rparr>)"
  by (simp add: poll_next.simps [of "Suc n"])

text \<open>
  Every state the mapping passes through has to answer the remaining range with nothing more; the
  collected list is then the mapping of the buffer.
\<close>

lemma try_filter_collect_buffer:
  assumes "length (cs_buffer s) < n" "\<not> cs_spent s"
    and "\<And>st. P st \<Longrightarrow> chunk_fn st (cs_start s) (cs_end s) = Some (Inr None)"
    and "\<And>t st r st'. P st \<Longrightarrow> f t st = Some (r, st') \<Longrightarrow> P st'" "P st"
  shows "try_filter_collect n chunk_fn f s st = filter_items f (cs_buffer s) st"
  using assms(1,2,3,5)
proof (induction "cs_buffer s" arbitrary: s st n)
  case Nil
  then obtain m where "n = Suc m" by (cases n) auto
  with Nil poll_next_end [of s "chunk_fn st" m] show ?case by simp
next
  case (Cons t ts)
  then obtain m where m: "n = Suc m" "length ts < m" by (cases n) (auto simp flip: Cons.hyps)
  have poll: "poll_next (Suc m) (chunk_fn st) s = Some (Item (Inr t), s\<lparr>cs_buffer := ts\<rparr>)"
    using Cons.hyps(2) by (intro poll_next_buffered) simp
  have rest: "try_filter_collect m chunk_fn f (s\<lparr>cs_buffer := ts\<rparr>) st' = filter_items f ts st'"
    if "f t st = Some (r, st')" for r st'
    using Cons.hyps(1) [of "s\<lparr>cs_buffer := ts\<rparr>" m st'] Cons.prems(2,3,4) m(2) assms(4) [OF _ that]
    by simp
  show ?case
    using poll rest by (simp add: m(1) flip: Cons.hyps(2) split: option.splits sum.splits prod.splits)
qed

lemma try_filter_collect_chunk:
  assumes "length items < n" "chunk_fn st lo hi = Some (Inr (if items = [] then None else Some (lo', hi', items)))"
    and "items = [] \<or> (\<forall>st. P st \<longrightarrow> chunk_fn st lo' hi' = Some (Inr None))"
    and "\<And>t st r st'. P st \<Longrightarrow> f t st = Some (r, st') \<Longrightarrow> P st'" "P st"
  shows "try_filter_collect n chunk_fn f (chunked_stream_new lo hi) st = filter_items f items st"
proof (cases items)
  case Nil
  with assms(1) obtain m where "n = Suc m" by (cases n) auto
  with assms(2) Nil show ?thesis
    using poll_next_end [of "chunked_stream_new lo hi" "chunk_fn st" m] by (simp add: chunked_stream_new_def)
next
  case (Cons t ts)
  from assms(1) Cons obtain m where m: "n = Suc m" "length ts < m" by (cases n) auto
  let ?s = "(chunked_stream_new lo hi)\<lparr>cs_start := lo', cs_end := hi', cs_buffer := ts\<rparr>"
  have "poll_next (Suc m) (chunk_fn st) (chunked_stream_new lo hi) = Some (Item (Inr t), ?s)"
    using assms(2) Cons by (intro poll_next_chunk) (simp_all add: chunked_stream_new_def)
  moreover have "try_filter_collect m chunk_fn f ?s st' = filter_items f ts st'"
    if "f t st = Some (r, st')" for r st'
    using try_filter_collect_buffer [of ?s m P chunk_fn f st'] assms(3) assms(4) [OF assms(5) that] m(2) Cons assms(4)
    by (simp add: chunked_stream_new_def)
  ultimately show ?thesis
    by (simp add: m(1) Cons split: option.splits sum.splits prod.splits)
qed

end
