(* ===== verification/Awaited_Action_Db.thy ===== *)
theory Awaited_Action_Db
  imports Awaited_Action Chunked_Stream
begin

text \<open>
  \<^verbatim>\<open>nativelink-scheduler/src/memory_awaited_action_db.rs\<close>: the in-memory database of awaited actions.

  A \<^verbatim>\<open>watch::Sender\<close> is the value it holds, and a \<^verbatim>\<open>BTreeSet\<close> the set of its elements, iterated in
  their order. The evicting map from client ids is a map; replacing or evicting an entry drops its
  \<^verbatim>\<open>ClientAwaitedAction\<close>, whose \<^verbatim>\<open>Drop\<close> sends \<^verbatim>\<open>ClientDroppedOperation\<close> to the event channel, the queue
  \<open>action_events\<close>. When the evicting map evicts on its own (time to idle) is not fixed: eviction is
  an operation of its own. The fresh operation id, the clock and the tracing baggage are arguments.
\<close>

section \<open>State\<close>

datatype action_event = ClientKeepAlive operation_id | ClientDroppedOperation operation_id

record sorted_awaited_actions =
  unknown :: "sorted_awaited_action set"
  cache_check :: "sorted_awaited_action set"
  queued :: "sorted_awaited_action set"
  executing :: "sorted_awaited_action set"
  completed :: "sorted_awaited_action set"

record awaited_action_db =
  client_operations :: "operation_id \<rightharpoonup> operation_id"
  operations :: "operation_id \<rightharpoonup> awaited_action"
  hash_keys :: "action_unique_key \<rightharpoonup> operation_id"
  sorted_actions :: sorted_awaited_actions
  connected_clients :: "operation_id \<rightharpoonup> nat"
  action_events :: "action_event list"
  dag_snapshot :: "criticality_snapshot option"

definition db_new :: awaited_action_db where
  "db_new =
     \<lparr>client_operations = Map.empty, operations = Map.empty, hash_keys = Map.empty,
      sorted_actions = \<lparr>unknown = {}, cache_check = {}, queued = {}, executing = {}, completed = {}\<rparr>,
      connected_clients = Map.empty, action_events = [], dag_snapshot = None\<rparr>"

definition set_dag_criticality :: "criticality_snapshot option \<Rightarrow> awaited_action_db \<Rightarrow> awaited_action_db" where
  "set_dag_criticality dag db = db\<lparr>dag_snapshot := dag\<rparr>"

section \<open>The sorted sets\<close>

fun btree_for_state :: "ActionStage \<Rightarrow> sorted_awaited_actions \<Rightarrow> sorted_awaited_action set" where
  "btree_for_state Unknown s = unknown s"
| "btree_for_state CacheCheck s = cache_check s"
| "btree_for_state Queued s = queued s"
| "btree_for_state Executing s = executing s"
| "btree_for_state (Completed _) s = completed s"
| "btree_for_state (CompletedFromCache _) s = completed s"

text \<open>Writing through the mutable reference \<^verbatim>\<open>btree_for_state\<close> returns.\<close>

fun set_btree_for_state ::
  "ActionStage \<Rightarrow> sorted_awaited_action set \<Rightarrow> sorted_awaited_actions \<Rightarrow> sorted_awaited_actions" where
  "set_btree_for_state Unknown b s = s\<lparr>unknown := b\<rparr>"
| "set_btree_for_state CacheCheck b s = s\<lparr>cache_check := b\<rparr>"
| "set_btree_for_state Queued b s = s\<lparr>queued := b\<rparr>"
| "set_btree_for_state Executing b s = s\<lparr>executing := b\<rparr>"
| "set_btree_for_state (Completed _) b s = s\<lparr>completed := b\<rparr>"
| "set_btree_for_state (CompletedFromCache _) b s = s\<lparr>completed := b\<rparr>"

text \<open>
  The operations on the sorted sets return the sets as they are left, also on an error.
\<close>

definition insert_sort_map_for_stage ::
  "ActionStage \<Rightarrow> sorted_awaited_action \<Rightarrow> sorted_awaited_actions \<Rightarrow> unit result \<times> sorted_awaited_actions" where
  "insert_sort_map_for_stage stg sa s =
     (if sa \<in> btree_for_state stg s
      then (Inl (make_err Internal ''Tried to insert an action that was already in the sorted map. This should never happen. {:?} - {:?}''), s)
      else (Inr (), set_btree_for_state stg (insert sa (btree_for_state stg s)) s))"

definition process_state_changes ::
  "awaited_action \<Rightarrow> awaited_action \<Rightarrow> sorted_awaited_actions \<Rightarrow> unit result \<times> sorted_awaited_actions" where
  "process_state_changes old new s =
     (let old_stage = stage (aa_state old);
          sa = SortedAwaitedAction (aa_sort_key old) (aa_operation_id new)
      in if sa \<notin> btree_for_state old_stage s
         then (Inl (make_err Internal ''sorted_action_info_hash_keys and action_info_hash_key_to_awaited_action are out of sync - {} - {:?}''), s)
         else
           let s = set_btree_for_state old_stage (btree_for_state old_stage s - {sa}) s;
               (r, s) = insert_sort_map_for_stage (stage (aa_state new))
                 (SortedAwaitedAction (aa_sort_key new) (sa_operation_id sa)) s
           in (err_tip ''In AwaitedActionDb::update_awaited_action'' r, s))"

section \<open>Subscribers\<close>

text \<open>
  A subscriber watches the channel of one operation; a client's subscriber also knows the client id,
  which it substitutes into every state it hands out.
\<close>

record subscriber =
  sub_operation_id :: operation_id
  sub_client_id :: "operation_id option"

definition subscriber_borrow :: "subscriber \<Rightarrow> awaited_action \<Rightarrow> awaited_action" where
  "subscriber_borrow sub value =
     (case sub_client_id sub of
        None \<Rightarrow> value
      | Some c \<Rightarrow> set_client_operation_id c value)"

section \<open>Lookups\<close>

definition get_awaited_action_by_id :: "operation_id \<Rightarrow> awaited_action_db \<Rightarrow> subscriber option result" where
  "get_awaited_action_by_id client db =
     (case client_operations db client of
        None \<Rightarrow> Inr None
      | Some op \<Rightarrow>
          (case operations db op of
             None \<Rightarrow> Inl (make_err Internal ''Failed to get client operation id {client_operation_id:?}'')
           | Some _ \<Rightarrow> Inr (Some \<lparr>sub_operation_id = op, sub_client_id = Some client\<rparr>)))"

definition get_by_operation_id :: "operation_id \<Rightarrow> awaited_action_db \<Rightarrow> subscriber option" where
  "get_by_operation_id op db =
     (case operations db op of
        None \<Rightarrow> None
      | Some _ \<Rightarrow> Some \<lparr>sub_operation_id = op, sub_client_id = None\<rparr>)"

fun above :: "('a::linorder) bound \<Rightarrow> 'a \<Rightarrow> bool" where
  "above (Included a) x \<longleftrightarrow> a \<le> x"
| "above (Excluded a) x \<longleftrightarrow> a < x"
| "above Unbounded x \<longleftrightarrow> True"

fun below :: "('a::linorder) bound \<Rightarrow> 'a \<Rightarrow> bool" where
  "below (Included a) x \<longleftrightarrow> x \<le> a"
| "below (Excluded a) x \<longleftrightarrow> x < a"
| "below Unbounded x \<longleftrightarrow> True"

text \<open>\<^verbatim>\<open>BTreeSet::range\<close> panics on a start behind its end, and on two equal excluded bounds.\<close>

fun range_panics :: "('a::linorder) bound \<Rightarrow> 'a bound \<Rightarrow> bool" where
  "range_panics (Included a) (Included b) \<longleftrightarrow> b < a"
| "range_panics (Included a) (Excluded b) \<longleftrightarrow> b < a"
| "range_panics (Excluded a) (Included b) \<longleftrightarrow> b < a"
| "range_panics (Excluded a) (Excluded b) \<longleftrightarrow> b \<le> a"
| "range_panics _ _ \<longleftrightarrow> False"

definition btree_range :: "'a bound \<Rightarrow> 'a bound \<Rightarrow> ('a::linorder) set \<Rightarrow> 'a list option" where
  "btree_range lo hi s =
     (if range_panics lo hi then None
      else Some (filter (\<lambda>x. above lo x \<and> below hi x) (sorted_list_of_set s)))"

fun btree_of_sorted_state :: "sorted_state \<Rightarrow> sorted_awaited_actions \<Rightarrow> sorted_awaited_action set" where
  "btree_of_sorted_state SCacheCheck s = cache_check s"
| "btree_of_sorted_state SQueued s = queued s"
| "btree_of_sorted_state SExecuting s = executing s"
| "btree_of_sorted_state SCompleted s = completed s"

definition range_item :: "awaited_action_db \<Rightarrow> sorted_awaited_action \<Rightarrow> (sorted_awaited_action \<times> subscriber) result" where
  "range_item db sa =
     (case get_by_operation_id (sa_operation_id sa) db of
        None \<Rightarrow> Inl (make_err Internal ''Failed to get operation id {}'')
      | Some sub \<Rightarrow> Inr (sa, sub))"

definition get_range_of_actions ::
  "sorted_state \<Rightarrow> sorted_awaited_action bound \<Rightarrow> sorted_awaited_action bound \<Rightarrow> awaited_action_db \<Rightarrow>
    (sorted_awaited_action \<times> subscriber) result list option" where
  "get_range_of_actions st lo hi db =
     map_option (map (range_item db)) (btree_range lo hi (btree_of_sorted_state st (sorted_actions db)))"

text \<open>
  One round of the \<^verbatim>\<open>ChunkedStream\<close> of the trait method: the items of the range in the order asked
  for, with the range that is left, or nothing when the range is empty. The first failing item
  ends the round with its error.
\<close>

definition range_chunk ::
  "sorted_state \<Rightarrow> bool \<Rightarrow> sorted_awaited_action bound \<Rightarrow> sorted_awaited_action bound \<Rightarrow> awaited_action_db \<Rightarrow>
    (sorted_awaited_action bound \<times> sorted_awaited_action bound \<times> subscriber list) option result option" where
  "range_chunk st desc lo hi db =
     map_option (\<lambda>items.
       let tip = err_tip ''In AwaitedActionDb::get_range_of_actions'' in
       try_bind (collect_results (\<lambda>r. tip (tip r)) (if desc then rev items else items)) (\<lambda>out.
       if out = [] then Inr None
       else
         let end_key = Excluded (fst (last out))
         in Inr (Some (if desc then (lo, end_key, map snd out) else (end_key, hi, map snd out)))))
     (get_range_of_actions st lo hi db)"

text \<open>The stream over all operations, in the order of their ids.\<close>

definition get_awaited_actions_range ::
  "operation_id bound \<Rightarrow> operation_id bound \<Rightarrow> awaited_action_db \<Rightarrow> (operation_id \<times> subscriber) list option" where
  "get_awaited_actions_range lo hi db =
     map_option (map (\<lambda>op. (op, \<lparr>sub_operation_id = op, sub_client_id = None\<rparr>)))
       (btree_range lo hi (dom (operations db)))"

definition all_actions_chunk ::
  "operation_id bound \<Rightarrow> operation_id bound \<Rightarrow> awaited_action_db \<Rightarrow>
    (operation_id bound \<times> operation_id bound \<times> subscriber list) option option" where
  "all_actions_chunk lo hi db =
     map_option (\<lambda>out. if out = [] then None else Some (Excluded (fst (last out)), hi, map snd out))
       (get_awaited_actions_range lo hi db)"

section \<open>Updates\<close>

definition process_state_changes_for_hash_key_map ::
  "awaited_action \<Rightarrow> (action_unique_key \<rightharpoonup> operation_id) \<Rightarrow> (action_unique_key \<rightharpoonup> operation_id)" where
  "process_state_changes_for_hash_key_map new hk =
     (if \<not> is_finished (stage (aa_state new)) then hk
      else case unique_qualifier (aa_action_info new) of
             Cacheable key \<Rightarrow>
               (case hk key of
                  Some mapped \<Rightarrow> if mapped = aa_operation_id new then hk(key := None) else hk
                | None \<Rightarrow> hk)
           | Uncacheable _ \<Rightarrow> hk)"

definition update_awaited_action ::
  "awaited_action \<Rightarrow> awaited_action_db \<Rightarrow> unit result \<times> awaited_action_db" where
  "update_awaited_action new db =
     (case operations db (aa_operation_id new) of
        None \<Rightarrow> (Inl (make_err Internal ''OperationId does not exist in map in AwaitedActionDb::update_awaited_action''), db)
      | Some old \<Rightarrow>
          if aa_version old \<noteq> aa_version new
          then (Inl (make_err Aborted ''{} Expected {} but got {} for operation_id {:?} - {:?}''), db)
          else
            let new = increment_version new in
            if unique_qualifier (aa_action_info old) \<noteq> unique_qualifier (aa_action_info new)
            then (Inl (make_input_err ''Unique key changed for operation_id {:?} - {:?} - {:?}''), db)
            else if is_same_stage (stage (aa_state old)) (stage (aa_state new))
            then (Inr (), db\<lparr>operations := (operations db)(aa_operation_id new \<mapsto> new)\<rparr>)
            else
              (case process_state_changes old new (sorted_actions db) of
                 (Inl e, s) \<Rightarrow> (Inl e, db\<lparr>sorted_actions := s\<rparr>)
               | (Inr _, s) \<Rightarrow>
                   (Inr (), db\<lparr>sorted_actions := s,
                      hash_keys := process_state_changes_for_hash_key_map new (hash_keys db),
                      operations := (operations db)(aa_operation_id new \<mapsto> new)\<rparr>)))"

section \<open>Clients\<close>

text \<open>
  Inserting into the evicting map of clients: the \<^verbatim>\<open>ClientAwaitedAction\<close> an entry held before is
  dropped, which sends its event.
\<close>

definition insert_client :: "operation_id \<Rightarrow> operation_id \<Rightarrow> awaited_action_db \<Rightarrow> awaited_action_db" where
  "insert_client client op db =
     db\<lparr>client_operations := (client_operations db)(client \<mapsto> op),
        action_events := action_events db @
          (case client_operations db client of None \<Rightarrow> [] | Some old \<Rightarrow> [ClientDroppedOperation old])\<rparr>"

definition evict_client :: "operation_id \<Rightarrow> awaited_action_db \<Rightarrow> awaited_action_db" where
  "evict_client client db =
     (case client_operations db client of
        None \<Rightarrow> db
      | Some op \<Rightarrow>
          db\<lparr>client_operations := (client_operations db)(client := None),
             action_events := action_events db @ [ClientDroppedOperation op]\<rparr>)"

definition client_keep_alive :: "operation_id \<Rightarrow> awaited_action_db \<Rightarrow> awaited_action_db" where
  "client_keep_alive client db = db\<lparr>action_events := action_events db @ [ClientKeepAlive client]\<rparr>"

definition make_client_awaited_action :: "operation_id \<Rightarrow> awaited_action \<Rightarrow> awaited_action_db \<Rightarrow> awaited_action_db" where
  "make_client_awaited_action op a db =
     db\<lparr>operations := (operations db)(op \<mapsto> a), connected_clients := (connected_clients db)(op \<mapsto> 1)\<rparr>"

definition try_subscribe ::
  "system_time \<Rightarrow> operation_id \<Rightarrow> action_unique_qualifier \<Rightarrow> awaited_action_db \<Rightarrow>
    subscriber option result \<times> awaited_action_db" where
  "try_subscribe now client qualifier db =
     (case qualifier of
        Uncacheable _ \<Rightarrow> (Inr None, db)
      | Cacheable key \<Rightarrow>
          (case hash_keys db key of
             None \<Rightarrow> (Inr None, db)
           | Some op \<Rightarrow>
               (case operations db op of
                  None \<Rightarrow> (Inl (make_err Internal ''operation_id_to_awaited_action and action_info_hash_key_to_awaited_action are out of sync for {unique_key:?} - {operation_id}''), db)
                | Some a \<Rightarrow>
                    if is_finished (stage (aa_state a))
                    then (Inl (make_input_err ''Tried to subscribe to a completed action but it already finished. This should never happen. {:?}''), db)
                    else
                      (case connected_clients db op of
                         None \<Rightarrow> (Inl (make_err Internal ''connected_clients_for_operation_id and operation_id_to_awaited_action are out of sync for {unique_key:?} - {operation_id}''), db)
                       | Some n \<Rightarrow>
                           (Inr (Some \<lparr>sub_operation_id = op, sub_client_id = Some client\<rparr>),
                            insert_client client op
                              (db\<lparr>connected_clients := (connected_clients db)(op \<mapsto> n + 1),
                                  operations := (operations db)(op \<mapsto> update_client_keep_alive now a)\<rparr>))))))"

text \<open>
  \<^verbatim>\<open>add_action\<close>; \<open>None\<close> is the panic on an insertion time before the epoch.
\<close>

definition add_action ::
  "(string \<Rightarrow> request_metadata option) \<Rightarrow> baggage option \<Rightarrow> operation_id \<Rightarrow> system_time \<Rightarrow> operation_id \<Rightarrow>
    action_info \<Rightarrow> awaited_action_db \<Rightarrow> (subscriber result \<times> awaited_action_db) option" where
  "add_action decode bg fresh now client info db =
     (case try_subscribe now client (unique_qualifier info) db of
        (Inl e, db) \<Rightarrow> Some (err_tip ''In AwaitedActionDb::subscribe_or_add_action'' (Inl e), db)
      | (Inr (Some sub), db) \<Rightarrow> Some (Inr sub, db)
      | (Inr None, db) \<Rightarrow>
          (case awaited_action_new_with_criticality decode bg fresh info now (dag_snapshot db) of
             None \<Rightarrow> None
           | Some a \<Rightarrow>
               let db = insert_client client fresh (make_client_awaited_action fresh a db);
                   db = (case unique_qualifier info of
                           Cacheable key \<Rightarrow> db\<lparr>hash_keys := (hash_keys db)(key \<mapsto> fresh)\<rparr>
                         | Uncacheable _ \<Rightarrow> db);
                   (r, s) = insert_sort_map_for_stage Queued
                     (SortedAwaitedAction (aa_sort_key a) fresh) (sorted_actions db);
                   db = db\<lparr>sorted_actions := s\<rparr>
               in Some (case r of
                    Inl e \<Rightarrow> (err_tip ''In AwaitedActionDb::subscribe_or_add_action'' (Inl e), db)
                  | Inr _ \<Rightarrow> (Inr \<lparr>sub_operation_id = fresh, sub_client_id = Some client\<rparr>, db))))"

section \<open>Events\<close>

text \<open>
  \<^verbatim>\<open>handle_action_events\<close> for one event. The client count is decremented with wrap-around, written
  out for the zero the map never holds.
\<close>

definition client_dropped_operation :: "operation_id \<Rightarrow> awaited_action_db \<Rightarrow> awaited_action_db" where
  "client_dropped_operation op db =
     (case operations db op of
        None \<Rightarrow> db
      | Some a \<Rightarrow>
          let db = db\<lparr>operations := (operations db)(op := None)\<rparr>;
              clients = (case connected_clients db op of
                           Some n \<Rightarrow> if n = 0 then 2 ^ 64 - 1 else n - 1
                         | None \<Rightarrow> 0);
              db = db\<lparr>connected_clients := (connected_clients db)(op := None)\<rparr>
          in if clients \<noteq> 0
             then db\<lparr>operations := (operations db)(op \<mapsto> a),
                     connected_clients := (connected_clients db)(op \<mapsto> clients)\<rparr>
             else
               let db = (case unique_qualifier (aa_action_info a) of
                           Cacheable key \<Rightarrow>
                             if hash_keys db key = Some op
                             then db\<lparr>hash_keys := (hash_keys db)(key := None)\<rparr> else db
                         | Uncacheable _ \<Rightarrow> db);
                   stg = stage (aa_state a);
                   sa = SortedAwaitedAction (aa_sort_key a) op
               in db\<lparr>sorted_actions := set_btree_for_state stg
                       (btree_for_state stg (sorted_actions db) - {sa}) (sorted_actions db)\<rparr>)"

fun handle_action_event :: "system_time \<Rightarrow> action_event \<Rightarrow> awaited_action_db \<Rightarrow> awaited_action_db" where
  "handle_action_event now (ClientDroppedOperation op) db = client_dropped_operation op db"
| "handle_action_event now (ClientKeepAlive client) db =
     (case client_operations db client of
        None \<Rightarrow> db
      | Some op \<Rightarrow>
          (case operations db op of
             None \<Rightarrow> db
           | Some a \<Rightarrow> db\<lparr>operations := (operations db)(op \<mapsto> update_client_keep_alive now a)\<rparr>))"

definition handle_action_events :: "system_time \<Rightarrow> action_event list \<Rightarrow> awaited_action_db \<Rightarrow> awaited_action_db" where
  "handle_action_events now evs db = fold (handle_action_event now) evs db"

definition MAX_ACTION_EVENTS_RX_PER_CYCLE :: nat where
  "MAX_ACTION_EVENTS_RX_PER_CYCLE = 1024"

text \<open>One cycle of the background task: at most 1024 events are received and handled.\<close>

definition event_cycle :: "system_time \<Rightarrow> awaited_action_db \<Rightarrow> awaited_action_db" where
  "event_cycle now db =
     (let evs = take MAX_ACTION_EVENTS_RX_PER_CYCLE (action_events db)
      in handle_action_events now evs
           (db\<lparr>action_events := drop MAX_ACTION_EVENTS_RX_PER_CYCLE (action_events db)\<rparr>))"

end
