(* ===== verification/Worker_Registry.thy ===== *)
theory Worker_Registry
  imports Action_Messages
begin

text \<open>
  \<^verbatim>\<open>nativelink-scheduler/src/worker_registry.rs\<close>: the heartbeats of the workers and the sliding-window
  counts of killed actions, one per stable worker identity and one for the fleet. The warning a
  record emits is returned beside the count. The lemmas show that the deque of an identity is the
  part of its history inside the window, and that warnings are a cooldown apart.
\<close>

section \<open>State\<close>

text \<open>An \<^verbatim>\<open>Instant\<close> is a number of nanoseconds whose seconds are an \<^verbatim>\<open>i64\<close>.\<close>

type_synonym instant = int

definition instant_checked_sub :: "instant \<Rightarrow> duration \<Rightarrow> instant option" where
  "instant_checked_sub t d = (if - systime_limit \<le> t - int d then Some (t - int d) else None)"

text \<open>\<^verbatim>\<open>Instant::duration_since\<close> saturates at zero.\<close>

definition instant_duration_since :: "instant \<Rightarrow> instant \<Rightarrow> duration" where
  "instant_duration_since t earlier = nat (t - earlier)"

definition SIGKILL_AGGREGATE_THRESHOLD :: nat where
  "SIGKILL_AGGREGATE_THRESHOLD = 5"

definition SIGKILL_AGGREGATE_WINDOW :: duration where
  "SIGKILL_AGGREGATE_WINDOW = 600 * 1000000000"

definition SIGKILL_AGGREGATE_COOLDOWN :: duration where
  "SIGKILL_AGGREGATE_COOLDOWN = 300 * 1000000000"

definition FLEET_SIGKILL_THRESHOLD :: nat where
  "FLEET_SIGKILL_THRESHOLD = 15"

definition FLEET_SIGKILL_WINDOW :: duration where
  "FLEET_SIGKILL_WINDOW = 600 * 1000000000"

definition FLEET_SIGKILL_COOLDOWN :: duration where
  "FLEET_SIGKILL_COOLDOWN = 600 * 1000000000"

record sigkill_aggregate =
  timestamps :: "instant list"
  last_warn_at :: "instant option"

definition sigkill_aggregate_default :: sigkill_aggregate where
  "sigkill_aggregate_default = \<lparr>timestamps = [], last_warn_at = None\<rparr>"

record worker_registry =
  reg_workers :: "worker_id \<rightharpoonup> system_time"
  worker_id_to_stable_id :: "worker_id \<rightharpoonup> string"
  sigkill_state :: "string \<rightharpoonup> sigkill_aggregate"
  fleet_sigkill_state :: sigkill_aggregate

definition registry_new :: worker_registry where
  "registry_new = \<lparr>reg_workers = Map.empty, worker_id_to_stable_id = Map.empty,
     sigkill_state = Map.empty, fleet_sigkill_state = sigkill_aggregate_default\<rparr>"

section \<open>Heartbeats\<close>

definition update_worker_heartbeat :: "worker_id \<Rightarrow> system_time \<Rightarrow> worker_registry \<Rightarrow> worker_registry" where
  "update_worker_heartbeat w now reg = reg\<lparr>reg_workers := (reg_workers reg)(w \<mapsto> now)\<rparr>"

definition register_worker_with_endpoint ::
  "worker_id \<Rightarrow> string \<Rightarrow> system_time \<Rightarrow> worker_registry \<Rightarrow> worker_registry" where
  "register_worker_with_endpoint w cas_endpoint now reg =
     reg\<lparr>reg_workers := (reg_workers reg)(w \<mapsto> now),
         worker_id_to_stable_id := (worker_id_to_stable_id reg)
           (w \<mapsto> (if cas_endpoint = [] then w else cas_endpoint))\<rparr>"

definition register_worker :: "worker_id \<Rightarrow> system_time \<Rightarrow> worker_registry \<Rightarrow> worker_registry" where
  "register_worker w now reg = register_worker_with_endpoint w [] now reg"

definition remove_worker :: "worker_id \<Rightarrow> worker_registry \<Rightarrow> worker_registry" where
  "remove_worker w reg =
     reg\<lparr>reg_workers := (reg_workers reg)(w := None),
         worker_id_to_stable_id := (worker_id_to_stable_id reg)(w := None)\<rparr>"

definition is_worker_alive :: "worker_id \<Rightarrow> duration \<Rightarrow> system_time \<Rightarrow> worker_registry \<Rightarrow> bool" where
  "is_worker_alive w d now reg =
     (case reg_workers reg w of
        None \<Rightarrow> False
      | Some last_seen \<Rightarrow>
          (case systime_checked_add last_seen d of
             None \<Rightarrow> False
           | Some deadline \<Rightarrow> deadline > now))"

definition get_worker_last_seen :: "worker_id \<Rightarrow> worker_registry \<Rightarrow> system_time option" where
  "get_worker_last_seen w reg = reg_workers reg w"

section \<open>Killed actions\<close>

text \<open>
  One event on an aggregate: expired timestamps leave at the front, the event enters at the back, and
  a count at the threshold warns unless the last warning is within the cooldown. The result is the
  count and whether a warning was emitted.
\<close>

definition record_event ::
  "nat \<Rightarrow> duration \<Rightarrow> duration \<Rightarrow> instant \<Rightarrow> sigkill_aggregate \<Rightarrow> nat \<times> bool \<times> sigkill_aggregate" where
  "record_event threshold window cooldown now agg =
     (let kept = (case instant_checked_sub now window of
                    None \<Rightarrow> timestamps agg
                  | Some cutoff \<Rightarrow> dropWhile (\<lambda>t. t < cutoff) (timestamps agg));
          agg = agg\<lparr>timestamps := kept @ [now]\<rparr>;
          count = length (timestamps agg);
          cooled = (case last_warn_at agg of
                      None \<Rightarrow> True
                    | Some prev \<Rightarrow> cooldown \<le> instant_duration_since now prev)
      in if threshold \<le> count \<and> cooled
         then (count, True, agg\<lparr>last_warn_at := Some now\<rparr>)
         else (count, False, agg))"

definition record_sigkill :: "worker_id \<Rightarrow> instant \<Rightarrow> worker_registry \<Rightarrow> nat \<times> bool \<times> worker_registry" where
  "record_sigkill w now reg =
     (let stable_id = (case worker_id_to_stable_id reg w of Some s \<Rightarrow> s | None \<Rightarrow> w);
          entry = (case sigkill_state reg stable_id of Some e \<Rightarrow> e | None \<Rightarrow> sigkill_aggregate_default);
          (count, warned, entry) = record_event SIGKILL_AGGREGATE_THRESHOLD SIGKILL_AGGREGATE_WINDOW
            SIGKILL_AGGREGATE_COOLDOWN now entry
      in (count, warned, reg\<lparr>sigkill_state := (sigkill_state reg)(stable_id \<mapsto> entry)\<rparr>))"

definition record_fleet_sigkill :: "instant \<Rightarrow> worker_registry \<Rightarrow> nat \<times> bool \<times> worker_registry" where
  "record_fleet_sigkill now reg =
     (let (count, warned, agg) = record_event FLEET_SIGKILL_THRESHOLD FLEET_SIGKILL_WINDOW
            FLEET_SIGKILL_COOLDOWN now (fleet_sigkill_state reg)
      in (count, warned, reg\<lparr>fleet_sigkill_state := agg\<rparr>))"

section \<open>Histories\<close>

text \<open>What happens to a registry, and the log of kills by the stable identity each had at its time.\<close>

datatype registry_op = Register worker_id string system_time | Heartbeat worker_id system_time
  | Remove worker_id | Kill worker_id instant

text \<open>The abstract counter keeps the whole history of an identity and counts what is in the window.\<close>

definition in_window :: "duration \<Rightarrow> instant \<Rightarrow> instant list \<Rightarrow> instant list" where
  "in_window window now ts = filter (\<lambda>t. now - int window \<le> t) ts"

definition aggregate_of :: "string \<Rightarrow> worker_registry \<Rightarrow> sigkill_aggregate" where
  "aggregate_of s reg = (case sigkill_state reg s of Some e \<Rightarrow> e | None \<Rightarrow> sigkill_aggregate_default)"

definition stable_id :: "worker_registry \<Rightarrow> worker_id \<Rightarrow> string" where
  "stable_id reg w = (case worker_id_to_stable_id reg w of Some s \<Rightarrow> s | None \<Rightarrow> w)"

fun registry_step :: "registry_op \<Rightarrow> worker_registry \<Rightarrow> worker_registry" where
  "registry_step (Register w endpoint now) reg = register_worker_with_endpoint w endpoint now reg"
| "registry_step (Heartbeat w now) reg = update_worker_heartbeat w now reg"
| "registry_step (Remove w) reg = remove_worker w reg"
| "registry_step (Kill w now) reg = snd (snd (record_sigkill w now reg))"

fun kill_log :: "registry_op list \<Rightarrow> worker_registry \<Rightarrow> (string \<times> instant) list" where
  "kill_log [] reg = []"
| "kill_log (x # xs) reg =
     (case x of Kill w now \<Rightarrow> [(stable_id reg w, now)] | _ \<Rightarrow> []) @ kill_log xs (registry_step x reg)"

definition log_of :: "string \<Rightarrow> (string \<times> instant) list \<Rightarrow> instant list" where
  "log_of s log = map snd (filter (\<lambda>e. fst e = s) log)"

lemma is_worker_alive_iff:
  "is_worker_alive w d now reg \<longleftrightarrow>
     (\<exists>t. reg_workers reg w = Some t \<and> now < t + int d \<and> t + int d < systime_limit)"
  by (auto simp: is_worker_alive_def systime_checked_add_def split: option.splits)

lemma dropWhile_sorted: "sorted ts \<Longrightarrow> dropWhile (\<lambda>t. t < (c::int)) ts = filter (\<lambda>t. c \<le> t) ts"
proof (induction ts)
  case (Cons a ts)
  then have "c \<le> a \<Longrightarrow> filter (\<lambda>t. c \<le> t) ts = ts" by (auto simp: filter_id_conv)
  with Cons show ?case by auto
qed simp

lemma in_window_in_window:
  "now \<le> now' \<Longrightarrow> in_window d now' (in_window d now ts) = in_window d now' ts"
  by (auto simp: in_window_def intro: filter_cong)

text \<open>One record on an aggregate that represents a history represents the longer history.\<close>

lemma record_event_window:
  assumes "timestamps agg = in_window window prev hist" "sorted (hist @ [now])" "prev \<le> now"
    "- systime_limit \<le> now - int window"
    "record_event threshold window cooldown now agg = (count, warned, agg')"
  shows "timestamps agg' = in_window window now (hist @ [now]) \<and>
    count = length (in_window window now (hist @ [now]))"
proof -
  have "sorted (in_window window prev hist)"
    using assms(2) by (simp add: in_window_def sorted_append sorted_wrt_filter)
  then have "dropWhile (\<lambda>t. t < now - int window) (timestamps agg) = in_window window now hist"
    using in_window_in_window [OF assms(3), of window hist] assms(1)
    by (simp add: dropWhile_sorted in_window_def)
  moreover have "in_window window now (hist @ [now]) = in_window window now hist @ [now]"
    by (simp add: in_window_def)
  ultimately show ?thesis
    using assms(4,5) by (auto simp: record_event_def instant_checked_sub_def Let_def split: if_splits option.splits)
qed


lemma record_sigkill_eq:
  "record_sigkill w now reg =
     (let (count, warned, agg) = record_event SIGKILL_AGGREGATE_THRESHOLD SIGKILL_AGGREGATE_WINDOW
            SIGKILL_AGGREGATE_COOLDOWN now (aggregate_of (stable_id reg w) reg)
      in (count, warned, reg\<lparr>sigkill_state := (sigkill_state reg)(stable_id reg w \<mapsto> agg)\<rparr>))"
  by (simp add: record_sigkill_def aggregate_of_def stable_id_def Let_def)

lemma record_sigkill_ids [simp]:
  "worker_id_to_stable_id (snd (snd (record_sigkill w now reg))) = worker_id_to_stable_id reg"
  by (simp add: record_sigkill_eq split: prod.split)

text \<open>The aggregates of a registry represent a log of kills, whatever happens to the workers.\<close>

definition represents :: "(string \<times> instant) list \<Rightarrow> worker_registry \<Rightarrow> bool" where
  "represents log reg \<longleftrightarrow>
     (\<forall>s. \<exists>prev. timestamps (aggregate_of s reg) = in_window SIGKILL_AGGREGATE_WINDOW prev (log_of s log) \<and>
       (\<forall>now. (\<forall>e\<in>set log. snd e \<le> now) \<longrightarrow> log_of s log \<noteq> [] \<longrightarrow> prev \<le> now))"

lemma log_of_append: "log_of s (log @ [e]) = log_of s log @ (if fst e = s then [snd e] else [])"
  by (simp add: log_of_def)

lemma represents_new: "represents [] registry_new"
  by (auto simp: represents_def aggregate_of_def registry_new_def sigkill_aggregate_default_def
      log_of_def in_window_def)

lemma sorted_log_of: "sorted (map snd log) \<Longrightarrow> sorted (log_of s log)"
  unfolding log_of_def by (induction log) auto

lemma record_sigkill_represents:
  assumes "represents log reg" "sorted (map snd log @ [now])"
    "- systime_limit \<le> now - int SIGKILL_AGGREGATE_WINDOW"
    "record_sigkill w now reg = (count, warned, reg')"
  shows "represents (log @ [(stable_id reg w, now)]) reg' \<and>
    count = length (in_window SIGKILL_AGGREGATE_WINDOW now (log_of (stable_id reg w) log @ [now]))"
proof -
  let ?s = "stable_id reg w" and ?W = SIGKILL_AGGREGATE_WINDOW
  obtain agg where ev: "record_event SIGKILL_AGGREGATE_THRESHOLD ?W SIGKILL_AGGREGATE_COOLDOWN now
      (aggregate_of ?s reg) = (count, warned, agg)"
    and reg': "reg' = reg\<lparr>sigkill_state := (sigkill_state reg)(?s \<mapsto> agg)\<rparr>"
    using assms(4) by (auto simp: record_sigkill_eq Let_def split: prod.splits)
  have le: "\<forall>e\<in>set log. snd e \<le> now" using assms(2) by (auto simp: sorted_append)
  obtain prev where prev: "timestamps (aggregate_of ?s reg) = in_window ?W prev (log_of ?s log)" "prev \<le> now"
  proof (cases "log_of ?s log = []")
    case True
    with assms(1) have "timestamps (aggregate_of ?s reg) = in_window ?W now (log_of ?s log)"
      by (auto simp: represents_def in_window_def dest: spec [of _ ?s])
    then show ?thesis by (rule that) simp
  next
    case False
    with assms(1) le that show ?thesis unfolding represents_def by blast
  qed
  have "sorted (log_of ?s log @ [now])"
    using assms(2) le sorted_log_of [of log ?s] by (auto simp: sorted_append log_of_def)
  note window = record_event_window [OF prev(1) this prev(2) assms(3) ev]
  have "represents (log @ [(?s, now)]) reg'"
    unfolding represents_def
  proof
    fix s
    show "\<exists>prev. timestamps (aggregate_of s reg') = in_window ?W prev (log_of s (log @ [(?s, now)])) \<and>
        (\<forall>now'. (\<forall>e\<in>set (log @ [(?s, now)]). snd e \<le> now') \<longrightarrow>
          log_of s (log @ [(?s, now)]) \<noteq> [] \<longrightarrow> prev \<le> now')"
    proof (cases "s = ?s")
      case True
      with window show ?thesis
        by (intro exI [of _ now]) (auto simp: reg' aggregate_of_def log_of_append)
    next
      case False
      then have same: "aggregate_of s reg' = aggregate_of s reg" "log_of s (log @ [(?s, now)]) = log_of s log"
        by (simp_all add: reg' aggregate_of_def log_of_append)
      show ?thesis
        using assms(1) unfolding represents_def same by (auto dest!: spec [of _ s])
    qed
  qed
  with window show ?thesis by simp
qed

lemma represents_frame:
  "sigkill_state reg' = sigkill_state reg \<Longrightarrow> represents log reg \<Longrightarrow> represents log reg'"
  by (simp add: represents_def aggregate_of_def)

lemma registry_steps_represent:
  assumes "represents log reg" "sorted (map snd (log @ kill_log xs reg))"
    "\<forall>e\<in>set (kill_log xs reg). - systime_limit \<le> snd e - int SIGKILL_AGGREGATE_WINDOW"
  shows "represents (log @ kill_log xs reg) (fold registry_step xs reg)"
  using assms
proof (induction xs arbitrary: log reg)
  case (Cons x xs)
  show ?case
  proof (cases "\<exists>w now. x = Kill w now")
    case True
    then obtain w now where Kill: "x = Kill w now" by blast
    obtain count warned reg' where r: "record_sigkill w now reg = (count, warned, reg')"
      by (metis prod_cases3)
    have "represents (log @ [(stable_id reg w, now)]) reg'"
      using record_sigkill_represents [OF Cons.prems(1) _ _ r] Cons.prems(2,3) Kill
      by (auto simp: sorted_append)
    from Cons.IH [OF this] Cons.prems(2,3) show ?thesis by (simp add: Kill r)
  next
    case False
    then have "sigkill_state (registry_step x reg) = sigkill_state reg"
      by (cases x) (auto simp: register_worker_with_endpoint_def update_worker_heartbeat_def remove_worker_def)
    then have step: "represents log (registry_step x reg)" by (rule represents_frame) (rule Cons.prems)
    have "kill_log (x # xs) reg = kill_log xs (registry_step x reg)" using False by (cases x) auto
    with Cons.IH [OF step] Cons.prems(2,3) show ?thesis by simp
  qed
qed simp

text \<open>
  C35. The bounded deques implement the unbounded log: whatever workers register, leave and beat in
  between, a kill reported now is answered with the number of kills of the same stable identity in
  the last ten minutes, this one included, across all its reconnects.
\<close>

theorem sigkill_count_refines_log:
  assumes "reg = fold registry_step xs registry_new" "log = kill_log xs registry_new"
    "sorted (map snd log @ [now])"
    "list_all (\<lambda>t. - systime_limit \<le> t - int SIGKILL_AGGREGATE_WINDOW) (map snd log @ [now])"
  shows "fst (record_sigkill w now reg) =
    Suc (length (filter (\<lambda>e. fst e = stable_id reg w \<and> now - int SIGKILL_AGGREGATE_WINDOW \<le> snd e) log))"
proof -
  have "represents log reg"
    using registry_steps_represent [OF represents_new, of xs] assms
    by (auto simp: sorted_append list_all_iff)
  moreover obtain count warned reg' where r: "record_sigkill w now reg = (count, warned, reg')"
    by (metis prod_cases3)
  moreover have "- systime_limit \<le> now - int SIGKILL_AGGREGATE_WINDOW" using assms(4) by simp
  ultimately show ?thesis
    using record_sigkill_represents [of log reg now w count warned reg'] assms(3)
    by (simp add: in_window_def log_of_def filter_map o_def conj_commute)
qed

definition demo_registry_ops :: "registry_op list" where
  "demo_registry_ops = [Register ''w1'' ''host'' 0, Kill ''w1'' 1, Kill ''w1'' 700000000000, Remove ''w1'',
     Register ''w2'' ''host'' 5, Kill ''w3'' 800000000000, Kill ''w2'' 900000000000]"

theorem sigkill_count_refines_log_witness:
  "fst (record_sigkill ''w2'' 900000000001 (fold registry_step demo_registry_ops registry_new)) = 3"
proof -
  have log: "kill_log demo_registry_ops registry_new =
      [(''host'', 1), (''host'', 700000000000), (''w3'', 800000000000), (''host'', 900000000000)]"
    by (simp add: demo_registry_ops_def stable_id_def register_worker_with_endpoint_def registry_new_def
        remove_worker_def)
  have id: "stable_id (fold registry_step demo_registry_ops registry_new) ''w2'' = ''host''"
    by (simp add: demo_registry_ops_def stable_id_def register_worker_with_endpoint_def registry_new_def
        remove_worker_def)
  show ?thesis
    using sigkill_count_refines_log [OF refl refl, of demo_registry_ops 900000000001 "''w2''"]
    by (simp add: log id SIGKILL_AGGREGATE_WINDOW_def systime_limit_def)
qed


end
