(* ===== verification/State_Manager.thy ===== *)
theory State_Manager
  imports Awaited_Action_Db Worker_Registry
begin

text \<open>
  \<^verbatim>\<open>nativelink-scheduler/src/simple_scheduler_state_manager.rs\<close> and the types it takes from
  \<^verbatim>\<open>nativelink-util/src/operation_state_manager.rs\<close>: updates from workers and the matching engine, the
  filters over operations, and the two timeouts.

  The code is generic in the database, and so is the model: an \<open>action_db\<close> is the record of the trait
  \<^verbatim>\<open>AwaitedActionDb\<close>. Between reading an action and writing it back other tasks may use the database;
  what they do to it in attempt \<open>i\<close> is \<open>env_db i\<close>, and the clocks read in attempt \<open>i\<close> are \<open>env_now i\<close>
  and \<open>env_instant i\<close>. Looking an operation up and borrowing its value is one read: anything that
  happens in between is as if it had happened before or after. Delays, logs and metrics are left out.
\<close>

section \<open>The interfaces\<close>

record 'db action_db =
  db_get_by_operation_id :: "operation_id \<Rightarrow> 'db \<Rightarrow> subscriber option result"
  db_get_awaited_action_by_id :: "operation_id \<Rightarrow> 'db \<Rightarrow> subscriber option result"
  db_borrow :: "subscriber \<Rightarrow> 'db \<Rightarrow> awaited_action result"
  db_update_awaited_action :: "awaited_action \<Rightarrow> 'db \<Rightarrow> unit result \<times> 'db"
  db_add_action :: "operation_id \<Rightarrow> action_info \<Rightarrow> 'db \<Rightarrow> (subscriber result \<times> 'db) option"
  db_all_chunk :: "'db \<Rightarrow> operation_id bound \<Rightarrow> operation_id bound \<Rightarrow> (operation_id, subscriber) chunk option"
  db_range_chunk :: "sorted_state \<Rightarrow> bool \<Rightarrow> 'db \<Rightarrow> sorted_awaited_action bound \<Rightarrow> sorted_awaited_action bound \<Rightarrow>
    (sorted_awaited_action, subscriber) chunk option"

record 'db environment =
  env_db :: "nat \<Rightarrow> 'db \<Rightarrow> 'db"
  env_now :: "nat \<Rightarrow> system_time"
  env_instant :: "nat \<Rightarrow> instant"

datatype update_operation_type = KeepAlive | UpdateWithActionStage ActionStage | UpdateWithError Error
  | UpdateWithDisconnect | ExecutionComplete

text \<open>\<^verbatim>\<open>OperationStageFlags\<close> is a set of bits.\<close>

definition CacheCheckFlag :: u32 where "CacheCheckFlag = 2"

definition QueuedFlag :: u32 where "QueuedFlag = 4"

definition ExecutingFlag :: u32 where "ExecutingFlag = 8"

definition CompletedFlag :: u32 where "CompletedFlag = 16"

definition AnyFlag :: u32 where "AnyFlag = 0xFFFFFFFF"

definition flags_intersect :: "u32 \<Rightarrow> u32 \<Rightarrow> bool" where
  "flags_intersect a b = (and a b \<noteq> 0)"

datatype order_direction = Asc | Desc

record operation_filter =
  of_stages :: u32
  of_client_operation_id :: "operation_id option"
  of_operation_id :: "operation_id option"
  of_worker_id :: "worker_id option"
  of_action_digest :: "digest_info option"
  of_worker_update_before :: "system_time option"
  of_completed_before :: "system_time option"
  of_unique_key :: "action_unique_key option"
  of_order_by_priority_direction :: "order_direction option"

definition operation_filter_default :: operation_filter where
  "operation_filter_default = \<lparr>of_stages = AnyFlag, of_client_operation_id = None, of_operation_id = None,
     of_worker_id = None, of_action_digest = None, of_worker_update_before = None,
     of_completed_before = None, of_unique_key = None, of_order_by_priority_direction = None\<rparr>"

section \<open>State\<close>

record 'db state_manager =
  sm_action_db :: 'db
  max_job_retries :: nat
  no_event_action_timeout :: duration
  client_action_timeout :: duration
  max_executing_timeout :: duration
  sm_worker_registry :: "worker_registry option"

definition MAX_UPDATE_RETRIES :: nat where
  "MAX_UPDATE_RETRIES = 5"

section \<open>Timeouts of workers\<close>

definition registry_alive :: "system_time \<Rightarrow> awaited_action \<Rightarrow> 'db state_manager \<Rightarrow> bool" where
  "registry_alive now a sm =
     (case sm_worker_registry sm of
        None \<Rightarrow> False
      | Some reg \<Rightarrow>
          (case aa_worker_id a of
             None \<Rightarrow> False
           | Some w \<Rightarrow> is_worker_alive w (no_event_action_timeout sm) now reg))"

definition worker_should_update_before :: "system_time \<Rightarrow> awaited_action \<Rightarrow> 'db state_manager \<Rightarrow> system_time" where
  "worker_should_update_before now a sm =
     (case systime_checked_add (aa_last_worker_updated a) (no_event_action_timeout sm) of
        None \<Rightarrow> now | Some t \<Rightarrow> t)"

definition action_timeout_elapsed :: "system_time \<Rightarrow> awaited_action \<Rightarrow> bool" where
  "action_timeout_elapsed now a =
     (0 < timeout (aa_action_info a) \<and>
      (case duration_since now (last_transition_timestamp (aa_state a)) of
         None \<Rightarrow> False
       | Some elapsed \<Rightarrow> timeout (aa_action_info a) < elapsed))"

definition should_timeout_operation :: "system_time \<Rightarrow> awaited_action \<Rightarrow> 'db state_manager \<Rightarrow> bool" where
  "should_timeout_operation now a sm =
     (if stage (aa_state a) \<noteq> Executing then False
      else if action_timeout_elapsed now a then True
      else if registry_alive now a sm
      then 0 < max_executing_timeout sm \<and>
           (case duration_since now (aa_last_worker_updated a) of
              None \<Rightarrow> False
            | Some elapsed \<Rightarrow> max_executing_timeout sm < elapsed)
      else worker_should_update_before now a sm < now)"

section \<open>Updates\<close>

text \<open>
  What one attempt of \<^verbatim>\<open>inner_update_operation\<close> decides after reading the action: to return, to write
  the keep-alive, or to write a new stage (with the kill of the worker to be recorded).
\<close>

datatype update_plan = PlanReturn "unit result" | PlanKeepAlive awaited_action
  | PlanStage awaited_action ActionStage bool

definition too_many_attempts_error :: "worker_id option \<Rightarrow> Error \<Rightarrow> ActionStage" where
  "too_many_attempts_error wid e =
     Completed (action_result_default
       \<lparr>ar_execution_metadata := execution_metadata_default\<lparr>worker := (case wid of None \<Rightarrow> [] | Some w \<Rightarrow> w)\<rparr>,
        ar_error := Some e\<rparr>)"

definition stage_for_result :: "nat \<Rightarrow> ActionStage \<Rightarrow> awaited_action \<Rightarrow> awaited_action \<times> ActionStage \<times> bool" where
  "stage_for_result retries new_stage a =
     (case new_stage of
        Completed r \<Rightarrow>
          if exit_code r = 9
          then let a = a\<lparr>aa_attempts := aa_attempts a + 1\<rparr>
               in if aa_attempts a \<le> retries then (boost_priority a, Queued, True)
                  else (a, new_stage, True)
          else (a, new_stage, False)
      | _ \<Rightarrow> (a, new_stage, False))"

definition stage_for_error :: "nat \<Rightarrow> worker_id option \<Rightarrow> Error \<Rightarrow> awaited_action \<Rightarrow> awaited_action \<times> ActionStage" where
  "stage_for_error retries wid e a =
     (let a = (if err_code e = ResourceExhausted then a else a\<lparr>aa_attempts := aa_attempts a + 1\<rparr>)
      in if err_code e = FailedPrecondition \<or> retries < aa_attempts a
         then (a, too_many_attempts_error wid (error_merge e (make_err Internal
                ''Job cancelled because it attempted to execute too many times {} > {} times {}'')))
         else (a, Queued))"

definition stage_for_disconnect :: "nat \<Rightarrow> worker_id option \<Rightarrow> awaited_action \<Rightarrow> awaited_action \<times> ActionStage" where
  "stage_for_disconnect retries wid a =
     (let a = a\<lparr>aa_attempts := aa_attempts a + 1\<rparr>
      in if retries < aa_attempts a
         then (a, too_many_attempts_error wid (make_err Internal
                ''Worker disconnected repeatedly while executing this action ({} > {} attempts); the runner likely OOMKilled or the pod was evicted. {}''))
         else (a, Queued))"

definition plan_update ::
  "nat \<Rightarrow> worker_id option \<Rightarrow> update_operation_type \<Rightarrow> system_time \<Rightarrow> awaited_action \<Rightarrow> update_plan" where
  "plan_update retries wid upd now a =
     (if aa_worker_id a \<noteq> None \<and> wid \<noteq> None \<and> wid \<noteq> aa_worker_id a
      then PlanReturn (Inl (make_err Aborted ''Worker ids do not match - {:?} != {:?} for {:?}''))
      else if is_finished (stage (aa_state a)) then PlanReturn (Inr ())
      else case upd of
        KeepAlive \<Rightarrow> PlanKeepAlive (worker_keep_alive now a)
      | UpdateWithActionStage new_stage \<Rightarrow>
          if new_stage = Executing \<and> stage (aa_state a) = Executing
          then PlanReturn (Inl (make_err Aborted ''Action already assigned''))
          else (case stage_for_result retries new_stage a of (a, s, sigkill) \<Rightarrow> PlanStage a s sigkill)
      | UpdateWithError e \<Rightarrow> (case stage_for_error retries wid e a of (a, s) \<Rightarrow> PlanStage a s False)
      | UpdateWithDisconnect \<Rightarrow> (case stage_for_disconnect retries wid a of (a, s) \<Rightarrow> PlanStage a s False)
      | ExecutionComplete \<Rightarrow> PlanReturn (Inr ()))"

definition write_stage ::
  "operation_id \<Rightarrow> worker_id option \<Rightarrow> system_time \<Rightarrow> ActionStage \<Rightarrow> awaited_action \<Rightarrow> awaited_action" where
  "write_stage op wid now s a =
     (let a = set_worker_id (if s = Queued then None else wid) now a
      in worker_set_state \<lparr>stage = s, last_transition_timestamp = now, client_operation_id = op,
           action_digest = auq_digest (unique_qualifier (aa_action_info a))\<rparr> now a)"

definition record_kill :: "bool \<Rightarrow> worker_id option \<Rightarrow> instant \<Rightarrow> worker_registry option \<Rightarrow> worker_registry option" where
  "record_kill sigkill wid now reg =
     (case (sigkill, reg, wid) of
        (True, Some r, Some w) \<Rightarrow>
          Some (snd (snd (record_fleet_sigkill now (snd (snd (record_sigkill w now r))))))
      | _ \<Rightarrow> reg)"

datatype attempt = Return "unit result" | Retry Error

definition write_back ::
  "'db action_db \<Rightarrow> 'db environment \<Rightarrow> nat \<Rightarrow> string \<Rightarrow> awaited_action \<Rightarrow> 'db state_manager \<Rightarrow>
    attempt \<times> 'db state_manager" where
  "write_back ops env i tip a sm =
     (let (r, db) = db_update_awaited_action ops a (env_db env i (sm_action_db sm));
          sm = sm\<lparr>sm_action_db := db\<rparr>
      in case err_tip tip r of
           Inl e \<Rightarrow> if err_code e = Aborted then (Retry e, sm) else (Return (Inl e), sm)
         | Inr u \<Rightarrow> (Return (Inr u), sm))"

definition read_operation :: "'db action_db \<Rightarrow> string \<Rightarrow> operation_id \<Rightarrow> 'db \<Rightarrow> awaited_action option result" where
  "read_operation ops tip op db =
     try_bind (err_tip tip (db_get_by_operation_id ops op db)) (\<lambda>sub.
     case sub of
       None \<Rightarrow> Inr None
     | Some sub \<Rightarrow> try_bind (err_tip tip (db_borrow ops sub db)) (\<lambda>a. Inr (Some a)))"

definition update_attempt ::
  "'db action_db \<Rightarrow> 'db environment \<Rightarrow> nat \<Rightarrow> operation_id \<Rightarrow> worker_id option \<Rightarrow> update_operation_type \<Rightarrow>
    'db state_manager \<Rightarrow> attempt \<times> 'db state_manager" where
  "update_attempt ops env i op wid upd sm =
     (case read_operation ops ''In SimpleSchedulerStateManager::update_operation'' op (sm_action_db sm) of
        Inl e \<Rightarrow> (Return (Inl e), sm)
      | Inr None \<Rightarrow> (Return (Inr ()), sm)
      | Inr (Some a) \<Rightarrow>
          (case plan_update (max_job_retries sm) wid upd (env_now env i) a of
             PlanReturn r \<Rightarrow> (Return r, sm)
           | PlanKeepAlive a \<Rightarrow>
               write_back ops env i
                 ''Failed to send KeepAlive in SimpleSchedulerStateManager::update_operation'' a sm
           | PlanStage a s sigkill \<Rightarrow>
               write_back ops env i ''In SimpleSchedulerStateManager::update_operation''
                 (write_stage op wid (env_now env i) s a)
                 (sm\<lparr>sm_worker_registry := record_kill sigkill wid (env_instant env i) (sm_worker_registry sm)\<rparr>)))"

text \<open>The attempts that are left, the number of the next one, and the last conflict.\<close>

fun update_loop ::
  "'db action_db \<Rightarrow> 'db environment \<Rightarrow> nat \<Rightarrow> nat \<Rightarrow> Error option \<Rightarrow> operation_id \<Rightarrow> worker_id option \<Rightarrow>
    update_operation_type \<Rightarrow> 'db state_manager \<Rightarrow> unit result \<times> 'db state_manager" where
  "update_loop ops env 0 i last_err op wid upd sm =
     (Inl (case last_err of
             Some e \<Rightarrow> e
           | None \<Rightarrow> make_err Internal ''Failed to update action after {} retries with no error set''), sm)"
| "update_loop ops env (Suc n) i last_err op wid upd sm =
     (case update_attempt ops env i op wid upd sm of
        (Return r, sm) \<Rightarrow> (r, sm)
      | (Retry e, sm) \<Rightarrow> update_loop ops env n (i + 1) (Some e) op wid upd sm)"

definition inner_update_operation ::
  "'db action_db \<Rightarrow> 'db environment \<Rightarrow> operation_id \<Rightarrow> worker_id option \<Rightarrow> update_operation_type \<Rightarrow>
    'db state_manager \<Rightarrow> unit result \<times> 'db state_manager" where
  "inner_update_operation ops env op wid upd sm =
     update_loop ops env MAX_UPDATE_RETRIES 0 None op wid upd sm"

definition update_operation ::
  "'db action_db \<Rightarrow> 'db environment \<Rightarrow> operation_id \<Rightarrow> worker_id \<Rightarrow> update_operation_type \<Rightarrow>
    'db state_manager \<Rightarrow> unit result \<times> 'db state_manager" where
  "update_operation ops env op w upd sm = inner_update_operation ops env op (Some w) upd sm"

definition assign_operation ::
  "'db action_db \<Rightarrow> 'db environment \<Rightarrow> operation_id \<Rightarrow> worker_id result \<Rightarrow>
    'db state_manager \<Rightarrow> unit result \<times> 'db state_manager" where
  "assign_operation ops env op worker_or_reason sm =
     (case worker_or_reason of
        Inr w \<Rightarrow> inner_update_operation ops env op (Some w) (UpdateWithActionStage Executing) sm
      | Inl e \<Rightarrow> inner_update_operation ops env op None (UpdateWithError e) sm)"

definition timeout_operation_id ::
  "'db action_db \<Rightarrow> 'db environment \<Rightarrow> system_time \<Rightarrow> operation_id \<Rightarrow> 'db state_manager \<Rightarrow>
    unit result \<times> 'db state_manager" where
  "timeout_operation_id ops env now op sm =
     (let tip = ''In SimpleSchedulerStateManager::timeout_operation_id'' in
      case try_bind (read_operation ops tip op (sm_action_db sm)) (err_tip_option
             ''Operation id {operation_id} does not exist in SimpleSchedulerStateManager::timeout_operation_id'') of
        Inl e \<Rightarrow> (Inl e, sm)
      | Inr a \<Rightarrow>
          if stage (aa_state a) \<noteq> Executing then (Inr (), sm)
          else if registry_alive now a sm \<or> now \<le> worker_should_update_before now a sm then (Inr (), sm)
          else assign_operation ops env op
                 (Inl (make_err DeadlineExceeded ''Operation timed out after {} seconds'')) sm)"

section \<open>Filters\<close>

text \<open>
  The client timeout of \<^verbatim>\<open>apply_filter_predicate\<close>: the attempts to complete an action nobody listens to.
  The result is whether the action counts as timed out and the action it was reloaded to, if any;
  \<open>None\<close> is the panic of an overflowing \<^verbatim>\<open>SystemTime\<close> sum. In attempt \<open>i\<close> the clock is read at \<open>2 i\<close> and
  at \<open>2 i + 1\<close>.
\<close>

fun client_timeout_loop ::
  "'db action_db \<Rightarrow> 'db environment \<Rightarrow> duration \<Rightarrow> subscriber \<Rightarrow> action_state \<Rightarrow> awaited_action \<Rightarrow> nat \<Rightarrow> nat \<Rightarrow>
    awaited_action option \<Rightarrow> 'db \<Rightarrow> (bool \<times> awaited_action option \<times> 'db) option" where
  "client_timeout_loop ops env limit sub st a 0 i reloaded db = Some (True, reloaded, db)"
| "client_timeout_loop ops env limit sub st a (Suc n) i reloaded db =
     (let new = worker_set_state st (env_now env (2 * i)) (case reloaded of None \<Rightarrow> a | Some r \<Rightarrow> r);
          (result, db) = db_update_awaited_action ops new (env_db env i db)
      in case result of
           Inr _ \<Rightarrow> Some (True, reloaded, db)
         | Inl e \<Rightarrow>
             (case (if i = MAX_UPDATE_RETRIES \<or> err_code e \<noteq> Aborted then Inl e else db_borrow ops sub db) of
                Inl _ \<Rightarrow> Some (True, reloaded, db)
              | Inr r \<Rightarrow>
                  (case systime_checked_add (aa_last_client_keepalive r) limit of
                     None \<Rightarrow> None
                   | Some deadline \<Rightarrow>
                       if env_now env (2 * i + 1) \<le> deadline then Some (False, Some r, db)
                       else if is_finished (stage (aa_state r)) then Some (True, Some r, db)
                       else client_timeout_loop ops env limit sub st a n (i + 1) (Some r) db)))"

definition client_timed_out_state :: "system_time \<Rightarrow> awaited_action \<Rightarrow> action_state" where
  "client_timed_out_state now a =
     (aa_state a)\<lparr>stage := Completed (action_result_default\<lparr>ar_error := Some (make_err DeadlineExceeded
         ''Operation timed out {} seconds of having no more clients listening'')\<rparr>),
       last_transition_timestamp := now\<rparr>"

definition stage_flag :: "ActionStage \<Rightarrow> u32" where
  "stage_flag s =
     (case s of
        Unknown \<Rightarrow> AnyFlag
      | CacheCheck \<Rightarrow> CacheCheckFlag
      | Queued \<Rightarrow> QueuedFlag
      | Executing \<Rightarrow> ExecutingFlag
      | Completed _ \<Rightarrow> CompletedFlag
      | CompletedFromCache _ \<Rightarrow> CompletedFlag)"

text \<open>The part of \<^verbatim>\<open>apply_filter_predicate\<close> that only looks at the action.\<close>

definition filter_matches :: "operation_filter \<Rightarrow> awaited_action \<Rightarrow> bool" where
  "filter_matches f a =
     ((case of_operation_id f of None \<Rightarrow> True | Some op \<Rightarrow> op = aa_operation_id a) \<and>
      (of_worker_id f = None \<or> of_worker_id f = aa_worker_id a) \<and>
      (case of_unique_key f of
         None \<Rightarrow> True
       | Some key \<Rightarrow>
           (case unique_qualifier (aa_action_info a) of
              Cacheable k \<Rightarrow> key = k
            | Uncacheable _ \<Rightarrow> False)) \<and>
      (case of_action_digest f of
         None \<Rightarrow> True
       | Some d \<Rightarrow> d = auq_digest (unique_qualifier (aa_action_info a))) \<and>
      (case of_worker_update_before f of None \<Rightarrow> True | Some t \<Rightarrow> aa_last_worker_updated a \<le> t) \<and>
      (case of_completed_before f of
         None \<Rightarrow> True
       | Some t \<Rightarrow> \<not> (is_finished (stage (aa_state a)) \<and> t < aa_last_worker_updated a)) \<and>
      (of_stages f = AnyFlag \<or> flags_intersect (of_stages f) (stage_flag (stage (aa_state a)))))"

definition apply_filter_predicate ::
  "'db action_db \<Rightarrow> 'db environment \<Rightarrow> awaited_action \<Rightarrow> subscriber \<Rightarrow> operation_filter \<Rightarrow>
    'db state_manager \<Rightarrow> (bool \<times> 'db state_manager) option" where
  "apply_filter_predicate ops env a sub f sm =
     (let now = env_now env 0 in
      case systime_checked_add (aa_last_client_keepalive a) (client_action_timeout sm) of
        None \<Rightarrow> None
      | Some deadline \<Rightarrow>
          if now \<le> deadline then Some (filter_matches f a, sm)
          else if is_finished (stage (aa_state a)) then Some (False, sm)
          else
            map_option (\<lambda>(timed_out, reloaded, db).
                (\<not> timed_out \<and> filter_matches f (case reloaded of None \<Rightarrow> a | Some r \<Rightarrow> r),
                 sm\<lparr>sm_action_db := db\<rparr>))
              (client_timeout_loop ops env (client_action_timeout sm) sub (client_timed_out_state now a) a
                MAX_UPDATE_RETRIES 1 None (sm_action_db sm)))"

definition sorted_awaited_action_state_for_flags :: "u32 \<Rightarrow> sorted_state option" where
  "sorted_awaited_action_state_for_flags flags =
     (if flags = CacheCheckFlag then Some SCacheCheck
      else if flags = QueuedFlag then Some SQueued
      else if flags = ExecutingFlag then Some SExecuting
      else if flags = CompletedFlag then Some SCompleted
      else None)"

text \<open>One item of the filtered streams: borrow the action, then apply the predicate.\<close>

definition filter_item ::
  "'db action_db \<Rightarrow> 'db environment \<Rightarrow> operation_filter \<Rightarrow> subscriber \<Rightarrow> 'db state_manager \<Rightarrow>
    ((subscriber \<times> sort_key) option result \<times> 'db state_manager) option" where
  "filter_item ops env f sub sm =
     (case err_tip ''In SimpleSchedulerStateManager::filter_operations'' (db_borrow ops sub (sm_action_db sm)) of
        Inl e \<Rightarrow> Some (Inl e, sm)
      | Inr a \<Rightarrow>
          map_option (\<lambda>(keep, sm). (Inr (if keep then Some (sub, aa_sort_key a) else None), sm))
            (apply_filter_predicate ops env a sub f sm))"

text \<open>The two lookups of a single operation share their tail.\<close>

definition filter_single ::
  "'db action_db \<Rightarrow> 'db environment \<Rightarrow> operation_filter \<Rightarrow> subscriber option result \<Rightarrow> 'db state_manager \<Rightarrow>
    (subscriber list result \<times> 'db state_manager) option" where
  "filter_single ops env f found sm =
     (case err_tip ''In SimpleSchedulerStateManager::filter_operations'' found of
        Inl e \<Rightarrow> Some (Inl e, sm)
      | Inr None \<Rightarrow> Some (Inr [], sm)
      | Inr (Some sub) \<Rightarrow>
          map_option (map_prod (map_sum id (\<lambda>r. case r of None \<Rightarrow> [] | Some (s, _) \<Rightarrow> [s])) id)
            (filter_item ops env f sub sm))"

definition order_items :: "order_direction option \<Rightarrow> (subscriber \<times> sort_key) list \<Rightarrow> (subscriber \<times> sort_key) list" where
  "order_items d items =
     (case d of
        Some Asc \<Rightarrow> sort_key snd items
      | Some Desc \<Rightarrow> rev (sort_key snd (rev items))
      | None \<Rightarrow> items)"

text \<open>
  \<^verbatim>\<open>inner_filter_operations\<close> as the list of subscribers a consumer of the stream collects; the fuel
  bounds the number of items and chunks. The unstable sort may order equal keys in any way; the
  model keeps their order.
\<close>

definition inner_filter_operations ::
  "nat \<Rightarrow> 'db action_db \<Rightarrow> 'db environment \<Rightarrow> operation_filter \<Rightarrow> 'db state_manager \<Rightarrow>
    (subscriber list result \<times> 'db state_manager) option" where
  "inner_filter_operations fuel ops env f sm =
     (case of_operation_id f of
        Some op \<Rightarrow> filter_single ops env f (db_get_by_operation_id ops op (sm_action_db sm)) sm
      | None \<Rightarrow>
      case of_client_operation_id f of
        Some c \<Rightarrow> filter_single ops env f (db_get_awaited_action_by_id ops c (sm_action_db sm)) sm
      | None \<Rightarrow>
      case sorted_awaited_action_state_for_flags (of_stages f) of
        None \<Rightarrow>
          map_option (map_prod (\<lambda>r. err_tip ''In SimpleSchedulerStateManager::filter_operations''
              (map_sum id (\<lambda>items. map fst (order_items (of_order_by_priority_direction f) items)) r)) id)
            (try_filter_collect fuel (\<lambda>sm. db_all_chunk ops (sm_action_db sm)) (filter_item ops env f)
              (chunked_stream_new Unbounded Unbounded) sm)
      | Some st \<Rightarrow>
          map_option (map_prod (map_sum id (map fst)) id)
            (try_filter_collect fuel
              (\<lambda>sm. db_range_chunk ops st (of_order_by_priority_direction f = Some Desc) (sm_action_db sm))
              (filter_item ops env f) (chunked_stream_new Unbounded Unbounded) sm))"

definition sm_add_action ::
  "'db action_db \<Rightarrow> operation_id \<Rightarrow> action_info \<Rightarrow> 'db state_manager \<Rightarrow>
    (subscriber result \<times> 'db state_manager) option" where
  "sm_add_action ops client info sm =
     map_option (\<lambda>(r, db). (err_tip ''In SimpleSchedulerStateManager::add_operation'' r, sm\<lparr>sm_action_db := db\<rparr>))
       (db_add_action ops client info (sm_action_db sm))"

definition client_operation_id_to_operation_id ::
  "'db action_db \<Rightarrow> operation_id \<Rightarrow> 'db state_manager \<Rightarrow> operation_id option result" where
  "client_operation_id_to_operation_id ops client sm =
     (let tip = ''In SimpleSchedulerStateManager::client_operation_id_to_operation_id'' in
      try_bind (err_tip tip (db_get_awaited_action_by_id ops client (sm_action_db sm))) (\<lambda>sub.
      case sub of
        None \<Rightarrow> Inr None
      | Some sub \<Rightarrow>
          try_bind (err_tip tip (db_borrow ops sub (sm_action_db sm))) (\<lambda>a. Inr (Some (aa_operation_id a)))))"

section \<open>Waiting for a change\<close>

text \<open>
  \<^verbatim>\<open>MatchingEngineActionStateResult::changed\<close> as a function of what it waits for: a new value of the
  action, or the timer. \<open>None\<close> is to be still waiting at the end of the list.
\<close>

datatype wait_event = ActionChanged "awaited_action result" | TimerFired system_time

fun matching_changed ::
  "'db action_db \<Rightarrow> 'db environment \<Rightarrow> subscriber \<Rightarrow> nat \<Rightarrow> wait_event list \<Rightarrow> 'db state_manager \<Rightarrow>
    (action_state \<times> origin_metadata option) result option \<times> 'db state_manager" where
  "matching_changed ops env sub n [] sm = (None, sm)"
| "matching_changed ops env sub n (ActionChanged r # evs) sm =
     (Some (try_bind (err_tip ''In MatchingEngineActionStateResult::changed'' r)
        (\<lambda>a. Inr (aa_state a, aa_origin_metadata a))), sm)"
| "matching_changed ops env sub n (TimerFired now # evs) sm =
     (case err_tip ''In MatchingEngineActionStateResult::changed'' (db_borrow ops sub (sm_action_db sm)) of
        Inl e \<Rightarrow> (Some (Inl e), sm)
      | Inr a \<Rightarrow>
          if stage (aa_state a) = Queued then matching_changed ops env sub n evs sm
          else if \<not> should_timeout_operation now a sm then matching_changed ops env sub n evs sm
          else
            (case timeout_operation_id ops env now (aa_operation_id a) sm of
               (r, sm) \<Rightarrow>
                 (case err_tip ''In MatchingEngineActionStateResult::changed'' r of
                    Inl e \<Rightarrow> (Some (Inl e), sm)
                  | Inr _ \<Rightarrow>
                      if MAX_UPDATE_RETRIES \<le> n
                      then (Some (Inl (make_err Internal ''Failed to update action after {} retries with no error set in MatchingEngineActionStateResult::changed - {} {:?}'')), sm)
                      else matching_changed ops env sub (n + 1) evs sm)))"

section \<open>The in-memory database\<close>

text \<open>
  The in-memory database as a provider of the interface. A subscriber borrows the current value of its
  operation; the channel of a removed operation would keep the last value, but every read of the
  code follows a lookup.
\<close>

definition memory_borrow :: "subscriber \<Rightarrow> awaited_action_db \<Rightarrow> awaited_action result" where
  "memory_borrow sub db =
     (case operations db (sub_operation_id sub) of
        Some a \<Rightarrow> Inr (subscriber_borrow sub a)
      | None \<Rightarrow> Inl (make_err Internal ''the channel of a removed operation''))"

definition memory_action_db ::
  "(string \<Rightarrow> request_metadata option) \<Rightarrow> baggage option \<Rightarrow> operation_id \<Rightarrow> system_time \<Rightarrow>
    awaited_action_db action_db" where
  "memory_action_db decode bg fresh now =
     \<lparr>db_get_by_operation_id = (\<lambda>op db. Inr (get_by_operation_id op db)),
      db_get_awaited_action_by_id = get_awaited_action_by_id,
      db_borrow = memory_borrow,
      db_update_awaited_action = update_awaited_action,
      db_add_action = (\<lambda>client info db. add_action decode bg fresh now client info db),
      db_all_chunk = (\<lambda>db lo hi. map_option Inr (all_actions_chunk lo hi db)),
      db_range_chunk = (\<lambda>st desc db lo hi. range_chunk st desc lo hi db)\<rparr>"

end
