(* ===== verification/Awaited_Action_Db_Inv.thy ===== *)
theory Awaited_Action_Db_Inv
  imports Awaited_Action_Db
begin

text \<open>
  The invariant of the in-memory database and its preservation. Three parts: every operation is in
  the sorted set of its stage under its sort key, and nowhere else (\<open>index_inv\<close>); the key map holds
  exactly the unfinished cacheable operations (\<open>key_inv\<close>); the number of connected clients of an
  operation is the number of client entries that point to it plus the drops still in the event
  queue, and an operation exists exactly while that number is positive (\<open>client_inv\<close>).
\<close>

section \<open>Buckets\<close>

fun bucket_of :: "ActionStage \<Rightarrow> nat" where
  "bucket_of Unknown = 0"
| "bucket_of CacheCheck = 1"
| "bucket_of Queued = 2"
| "bucket_of Executing = 3"
| "bucket_of (Completed _) = 4"
| "bucket_of (CompletedFromCache _) = 4"

abbreviation a_bucket :: "awaited_action \<Rightarrow> nat" where
  "a_bucket a \<equiv> bucket_of (stage (aa_state a))"

abbreviation a_finished :: "awaited_action \<Rightarrow> bool" where
  "a_finished a \<equiv> is_finished (stage (aa_state a))"

abbreviation a_qualifier :: "awaited_action \<Rightarrow> action_unique_qualifier" where
  "a_qualifier a \<equiv> unique_qualifier (aa_action_info a)"

lemma btree_get_set [simp]:
  "btree_for_state s (set_btree_for_state s' b x) =
     (if bucket_of s = bucket_of s' then b else btree_for_state s x)"
  by (cases s; cases s') simp_all

lemma btree_bucket_cong: "bucket_of s = bucket_of s' \<Longrightarrow> btree_for_state s x = btree_for_state s' x"
  by (cases s; cases s') simp_all

lemma is_same_stage_bucket: "is_same_stage s s' \<Longrightarrow> bucket_of s = bucket_of s' \<and> is_finished s = is_finished s'"
  by (cases s; cases s') (simp_all add: is_finished_def)

lemma finished_bucket: "is_finished s \<longleftrightarrow> bucket_of s = 4"
  by (cases s) (simp_all add: is_finished_def)

lemma is_same_stage_refl [simp]: "is_same_stage s s"
  by (cases s) simp_all

section \<open>The invariant\<close>

type_synonym ops = "operation_id \<rightharpoonup> awaited_action"

definition ids_ok :: "ops \<Rightarrow> bool" where
  "ids_ok m \<longleftrightarrow> (\<forall>op a. m op = Some a \<longrightarrow> aa_operation_id a = op)"

definition bucket_set :: "ops \<Rightarrow> nat \<Rightarrow> sorted_awaited_action set" where
  "bucket_set m b = {sa. \<exists>op a. m op = Some a \<and> a_bucket a = b \<and> sa = sorted_from a}"

definition index_inv :: "ops \<Rightarrow> sorted_awaited_actions \<Rightarrow> bool" where
  "index_inv m s \<longleftrightarrow> ids_ok m \<and> finite (dom m) \<and> (\<forall>stg. btree_for_state stg s = bucket_set m (bucket_of stg))"

definition key_inv :: "ops \<Rightarrow> (action_unique_key \<rightharpoonup> operation_id) \<Rightarrow> bool" where
  "key_inv m hk \<longleftrightarrow>
     (\<forall>k op. hk k = Some op \<longleftrightarrow> (\<exists>a. m op = Some a \<and> a_qualifier a = Cacheable k \<and> \<not> a_finished a))"

definition client_refs :: "(operation_id \<rightharpoonup> operation_id) \<Rightarrow> action_event list \<Rightarrow> operation_id \<Rightarrow> nat" where
  "client_refs cl evs op =
     card {c. cl c = Some op} + count_list evs (ClientDroppedOperation op)"

definition client_inv ::
  "ops \<Rightarrow> (operation_id \<rightharpoonup> operation_id) \<Rightarrow> (operation_id \<rightharpoonup> nat) \<Rightarrow> action_event list \<Rightarrow> bool" where
  "client_inv m cl cc evs \<longleftrightarrow>
     finite (dom cl) \<and> dom cc = dom m \<and>
     (\<forall>op. client_refs cl evs op = (case cc op of None \<Rightarrow> 0 | Some n \<Rightarrow> n)) \<and>
     (\<forall>op. cc op \<noteq> Some 0)"

definition db_inv :: "awaited_action_db \<Rightarrow> bool" where
  "db_inv db \<longleftrightarrow>
     index_inv (operations db) (sorted_actions db) \<and> key_inv (operations db) (hash_keys db) \<and>
     client_inv (operations db) (client_operations db) (connected_clients db) (action_events db)"

lemma db_inv_new: "db_inv db_new"
proof -
  have "btree_for_state stg (sorted_actions db_new) = {}" for stg
    by (cases stg) (simp_all add: db_new_def)
  then show ?thesis
    by (simp add: db_inv_def index_inv_def key_inv_def client_inv_def client_refs_def db_new_def
        ids_ok_def bucket_set_def)
qed

section \<open>Single changes to the operations\<close>

lemma ids_ok_upd [inv_intros]: "ids_ok m \<Longrightarrow> aa_operation_id a = op \<Longrightarrow> ids_ok (m(op \<mapsto> a))"
  by (simp add: ids_ok_def)

lemma ids_ok_del [inv_intros]: "ids_ok m \<Longrightarrow> ids_ok (m(op := None))"
  by (simp add: ids_ok_def)

lemma bucket_setI: "m op = Some a \<Longrightarrow> a_bucket a = b \<Longrightarrow> sorted_from a \<in> bucket_set m b"
  by (auto simp: bucket_set_def)

lemma bucket_setE:
  assumes "sa \<in> bucket_set m b"
  obtains op a where "m op = Some a" "a_bucket a = b" "sa = sorted_from a"
  using assms by (auto simp: bucket_set_def)

lemma bucket_set_split:
  assumes "m op = Some a"
  shows "bucket_set m b = (if a_bucket a = b then {sorted_from a} else {}) \<union> bucket_set (m(op := None)) b"
    (is "_ = ?R")
proof
  show "bucket_set m b \<subseteq> ?R"
  proof
    fix sa
    assume "sa \<in> bucket_set m b"
    then obtain op' a' where a': "m op' = Some a'" "a_bucket a' = b" "sa = sorted_from a'"
      by (rule bucket_setE)
    show "sa \<in> ?R"
    proof (cases "op' = op")
      case False
      with a'(1) have "(m(op := None)) op' = Some a'" by simp
      with a' show ?thesis by (auto intro: bucket_setI)
    qed (use a' assms in auto)
  qed
  show "?R \<subseteq> bucket_set m b"
    using assms by (auto intro: bucket_setI elim!: bucket_setE split: if_splits)
qed

lemma bucket_set_upd:
  "bucket_set (m(op \<mapsto> a)) b =
     (if a_bucket a = b then {sorted_from a} else {}) \<union> bucket_set (m(op := None)) b"
  using bucket_set_split [of "m(op \<mapsto> a)" op a b] by simp

lemma bucket_set_del:
  assumes "ids_ok m" "m op = Some a"
  shows "bucket_set (m(op := None)) b = bucket_set m b - {sorted_from a}"
proof -
  have "sorted_from a \<notin> bucket_set (m(op := None)) b"
  proof
    assume "sorted_from a \<in> bucket_set (m(op := None)) b"
    then obtain op' a' where "(m(op := None)) op' = Some a'" "sorted_from a = sorted_from a'"
      by (rule bucket_setE)
    moreover from this have "m op' = Some a'" "op' \<noteq> op" by (auto split: if_splits)
    ultimately show False using assms by (metis ids_ok_def sorted_from_sel(2))
  qed
  then show ?thesis using bucket_set_split [of m op a b] assms(2) by auto
qed

lemma bucket_set_mem:
  assumes "ids_ok m" "m op = Some a"
  shows "sorted_from a \<in> bucket_set m b \<longleftrightarrow> a_bucket a = b"
proof
  assume "sorted_from a \<in> bucket_set m b"
  then obtain op' a' where a': "m op' = Some a'" "a_bucket a' = b" "sorted_from a = sorted_from a'"
    by (auto simp: bucket_set_def)
  with assms have "op' = op" by (metis ids_ok_def sorted_from_sel(2))
  with a' assms show "a_bucket a = b" by simp
qed (use assms in \<open>auto simp: bucket_set_def\<close>)

lemma bucket_set_fresh:
  "ids_ok m \<Longrightarrow> m (aa_operation_id a) = None \<Longrightarrow> sorted_from a \<notin> bucket_set m b"
  by (auto simp: bucket_set_def ids_ok_def) (metis option.distinct(1) sorted_from_sel(2))

text \<open>Replacing an operation by one that sorts the same leaves every bucket alone.\<close>

lemma bucket_set_same:
  assumes "m op = Some a" "sorted_from a' = sorted_from a" "a_bucket a' = a_bucket a"
  shows "bucket_set (m(op \<mapsto> a')) b = bucket_set m b"
proof -
  have "bucket_set m b = (if a_bucket a = b then {sorted_from a} else {}) \<union> bucket_set (m(op := None)) b"
    using assms(1) by (rule bucket_set_split)
  with assms(2,3) show ?thesis by (simp only: bucket_set_upd)
qed

lemma index_inv_same:
  assumes "index_inv m s" "m op = Some a" "sorted_from a' = sorted_from a" "a_bucket a' = a_bucket a"
  shows "index_inv (m(op \<mapsto> a')) s"
proof -
  from assms(1,2) have "aa_operation_id a = op" by (simp add: index_inv_def ids_ok_def)
  with assms(3) have "aa_operation_id a' = op" by (metis sorted_from_sel(2))
  with assms show ?thesis
    by (simp add: index_inv_def ids_ok_upd bucket_set_same)
qed

lemma key_inv_same:
  assumes "key_inv m hk" "m op = Some a" "a_qualifier a' = a_qualifier a" "a_finished a' = a_finished a"
  shows "key_inv (m(op \<mapsto> a')) hk"
  unfolding key_inv_def
proof (intro allI)
  fix k op'
  from assms(1) have "hk k = Some op' \<longleftrightarrow> (\<exists>a. m op' = Some a \<and> a_qualifier a = Cacheable k \<and> \<not> a_finished a)"
    by (simp add: key_inv_def)
  with assms(2-4) show "hk k = Some op' \<longleftrightarrow>
      (\<exists>a. (m(op \<mapsto> a')) op' = Some a \<and> a_qualifier a = Cacheable k \<and> \<not> a_finished a)"
    by (cases "op' = op") simp_all
qed

lemma client_inv_same:
  "client_inv m cl cc evs \<Longrightarrow> m op = Some a \<Longrightarrow> client_inv (m(op \<mapsto> a')) cl cc evs"
  by (auto simp: client_inv_def)

lemma key_inv_unfinished:
  "key_inv m hk \<Longrightarrow> m op = Some a \<Longrightarrow> a_qualifier a = Cacheable k \<Longrightarrow> \<not> a_finished a \<Longrightarrow> hk k = Some op"
  by (simp add: key_inv_def)

lemma key_inv_Some:
  "key_inv m hk \<Longrightarrow> hk k = Some op \<Longrightarrow> \<exists>a. m op = Some a \<and> a_qualifier a = Cacheable k \<and> \<not> a_finished a"
  by (simp add: key_inv_def)

section \<open>The sorted sets follow a change of stage or key\<close>

lemma process_state_changes_ok:
  assumes inv: "index_inv m s" and old: "m (aa_operation_id new) = Some old"
  shows "\<exists>s'. process_state_changes old new s = (Inr (), s') \<and>
    index_inv (m(aa_operation_id new \<mapsto> new)) s'"
proof -
  let ?op = "aa_operation_id new"
  let ?m = "m(?op := None)"
  define s1 where "s1 = set_btree_for_state (stage (aa_state old))
    (btree_for_state (stage (aa_state old)) s - {sorted_from old}) s"
  have ids: "ids_ok m" and fin: "finite (dom m)"
    and b: "\<And>stg. btree_for_state stg s = bucket_set m (bucket_of stg)"
    using inv by (simp_all add: index_inv_def)
  have op: "aa_operation_id old = ?op"
    using ids old by (simp add: ids_ok_def)
  then have sa: "SortedAwaitedAction (aa_sort_key old) ?op = sorted_from old"
    by (simp add: sorted_from_def)
  have b1: "btree_for_state stg s1 = bucket_set ?m (bucket_of stg)" for stg
    using bucket_set_mem [OF ids old] by (auto simp: s1_def b bucket_set_del [OF ids old])
  have fresh: "sorted_from new \<notin> btree_for_state (stage (aa_state new)) s1"
    unfolding b1 by (rule bucket_set_fresh) (use ids in \<open>simp_all add: ids_ok_del\<close>)
  have old_in: "sorted_from old \<in> btree_for_state (stage (aa_state old)) s"
    using bucket_set_mem [OF ids old] by (simp add: b)
  define s2 where "s2 = set_btree_for_state (stage (aa_state new))
    (insert (sorted_from new) (btree_for_state (stage (aa_state new)) s1)) s1"
  have "process_state_changes old new s = (Inr (), s2)"
    using old_in fresh
    by (simp add: process_state_changes_def Let_def sa insert_sort_map_for_stage_def
        s1_def [symmetric] s2_def sorted_from_def [of new, symmetric] op)
  moreover have "index_inv (m(?op \<mapsto> new)) s2"
  proof -
    have "btree_for_state stg s2 = bucket_set (m(?op \<mapsto> new)) (bucket_of stg)" for stg
      using bucket_set_upd [of m ?op new] b1 by (auto simp: s2_def)
    with ids fin show ?thesis by (simp add: index_inv_def ids_ok_upd)
  qed
  ultimately show ?thesis by blast
qed

section \<open>Updates keep the invariant\<close>

text \<open>
  What the callers of \<^verbatim>\<open>update_awaited_action\<close> respect: a finished action stays finished, and the
  sort key only changes together with the stage.
\<close>

definition update_ok :: "awaited_action \<Rightarrow> awaited_action \<Rightarrow> bool" where
  "update_ok old new \<longleftrightarrow>
     (a_finished old \<longrightarrow> a_finished new) \<and>
     (is_same_stage (stage (aa_state old)) (stage (aa_state new)) \<longrightarrow> aa_sort_key new = aa_sort_key old)"

lemma key_inv_finish:
  assumes "key_inv m hk" "m op = Some old" "a_finished new"
  shows "key_inv (m(op \<mapsto> new)) (\<lambda>k. if hk k = Some op then None else hk k)"
  unfolding key_inv_def
proof (intro allI)
  fix k op'
  from assms(1) have "hk k = Some op' \<longleftrightarrow> (\<exists>a. m op' = Some a \<and> a_qualifier a = Cacheable k \<and> \<not> a_finished a)"
    by (simp add: key_inv_def)
  with assms(2,3) show "(if hk k = Some op then None else hk k) = Some op' \<longleftrightarrow>
      (\<exists>a. (m(op \<mapsto> new)) op' = Some a \<and> a_qualifier a = Cacheable k \<and> \<not> a_finished a)"
    by (cases "op' = op") auto
qed

lemma hash_key_map_finish:
  assumes "key_inv m hk" "m (aa_operation_id new) = Some old" "a_qualifier new = a_qualifier old"
    "a_finished new"
  shows "process_state_changes_for_hash_key_map new hk =
    (\<lambda>k. if hk k = Some (aa_operation_id new) then None else hk k)"
proof
  fix k
  have "a_qualifier new = Cacheable k" if "hk k = Some (aa_operation_id new)"
    using key_inv_Some [OF assms(1) that] assms(2,3) by auto
  then show "process_state_changes_for_hash_key_map new hk k =
      (if hk k = Some (aa_operation_id new) then None else hk k)"
    using assms(4)
    by (auto simp: process_state_changes_for_hash_key_map_def
        split: action_unique_qualifier.splits option.splits)
qed

lemma hash_key_map_inv:
  assumes "key_inv m hk" "m (aa_operation_id new) = Some old" "a_qualifier new = a_qualifier old"
    "a_finished old \<longrightarrow> a_finished new"
  shows "key_inv (m(aa_operation_id new \<mapsto> new)) (process_state_changes_for_hash_key_map new hk)"
proof (cases "a_finished new")
  case True
  with assms show ?thesis by (simp add: hash_key_map_finish key_inv_finish)
next
  case False
  with assms key_inv_same [OF assms(1,2,3)] show ?thesis
    by (simp add: process_state_changes_for_hash_key_map_def)
qed

lemma increment_version_sel [simp]:
  "aa_operation_id (increment_version a) = aa_operation_id a"
  "aa_state (increment_version a) = aa_state a" "aa_action_info (increment_version a) = aa_action_info a"
  "aa_sort_key (increment_version a) = aa_sort_key a"
  "sorted_from (increment_version a) = sorted_from a"
  "aa_version (increment_version a) = aa_version a + 1"
  by (simp_all add: increment_version_def sorted_from_def)

text \<open>What an update does on each of its paths.\<close>

lemma update_result:
  assumes "db_inv db"
  shows "fst (update_awaited_action new db) =
    (case operations db (aa_operation_id new) of
       None \<Rightarrow> Inl (make_err Internal ''OperationId does not exist in map in AwaitedActionDb::update_awaited_action'')
     | Some old \<Rightarrow>
         if aa_version old \<noteq> aa_version new
         then Inl (make_err Aborted ''{} Expected {} but got {} for operation_id {:?} - {:?}'')
         else if a_qualifier old \<noteq> a_qualifier new
         then Inl (make_input_err ''Unique key changed for operation_id {:?} - {:?} - {:?}'')
         else Inr ())"
proof (cases "operations db (aa_operation_id new)")
  case (Some old)
  from assms have "index_inv (operations db) (sorted_actions db)" by (simp add: db_inv_def)
  from process_state_changes_ok [of _ _ "increment_version new", simplified, OF this Some]
  show ?thesis using Some by (auto simp: update_awaited_action_def Let_def)
qed (simp add: update_awaited_action_def)

lemma update_operations:
  assumes "db_inv db"
  shows "operations (snd (update_awaited_action new db)) =
    (if fst (update_awaited_action new db) = Inr ()
     then (operations db)(aa_operation_id new \<mapsto> increment_version new) else operations db)"
proof (cases "operations db (aa_operation_id new)")
  case (Some old)
  from assms have "index_inv (operations db) (sorted_actions db)" by (simp add: db_inv_def)
  from process_state_changes_ok [of _ _ "increment_version new", simplified, OF this Some]
  show ?thesis using Some by (auto simp: update_awaited_action_def Let_def)
qed (simp add: update_awaited_action_def)

lemma update_error_unchanged:
  assumes "db_inv db" "fst (update_awaited_action new db) = Inl e"
  shows "snd (update_awaited_action new db) = db"
proof (cases "operations db (aa_operation_id new)")
  case (Some old)
  from assms have "index_inv (operations db) (sorted_actions db)" by (simp add: db_inv_def)
  from process_state_changes_ok [of _ _ "increment_version new", simplified, OF this Some]
  show ?thesis using Some assms(2)
    by (auto simp: update_awaited_action_def Let_def split: if_splits)
qed (simp add: update_awaited_action_def)

lemma update_inv [inv_intros]:
  assumes "db_inv db"
    and "\<And>old. operations db (aa_operation_id new) = Some old \<Longrightarrow> update_ok old new"
  shows "db_inv (snd (update_awaited_action new db))"
proof (cases "fst (update_awaited_action new db)")
  case (Inl e)
  with assms(1) show ?thesis by (simp add: update_error_unchanged)
next
  case (Inr u)
  then obtain old where old: "operations db (aa_operation_id new) = Some old"
    and q: "a_qualifier old = a_qualifier new" and v: "aa_version old = aa_version new"
    by (auto simp: update_result [OF assms(1)] split: option.splits if_splits)
  from assms(2) [OF old] have ok: "a_finished old \<longrightarrow> a_finished new"
    "is_same_stage (stage (aa_state old)) (stage (aa_state new)) \<longrightarrow> aa_sort_key new = aa_sort_key old"
    by (simp_all add: update_ok_def)
  have inv: "index_inv (operations db) (sorted_actions db)" "key_inv (operations db) (hash_keys db)"
    "client_inv (operations db) (client_operations db) (connected_clients db) (action_events db)"
    using assms(1) by (simp_all add: db_inv_def)
  let ?new = "increment_version new"
  show ?thesis
  proof (cases "is_same_stage (stage (aa_state old)) (stage (aa_state new))")
    case True
    with ok(2) inv(1) old have "sorted_from ?new = sorted_from old"
      by (simp add: sorted_from_def index_inv_def ids_ok_def)
    with True is_same_stage_bucket [OF True] inv old q v show ?thesis
      by (simp add: update_awaited_action_def Let_def db_inv_def index_inv_same key_inv_same
          client_inv_same)
  next
    case False
    from process_state_changes_ok [of _ _ ?new, simplified, OF inv(1) old] obtain s' where
      "process_state_changes old ?new (sorted_actions db) = (Inr (), s')"
      "index_inv ((operations db)(aa_operation_id new \<mapsto> ?new)) s'" by blast
    moreover have "key_inv ((operations db)(aa_operation_id new \<mapsto> ?new))
        (process_state_changes_for_hash_key_map ?new (hash_keys db))"
      using hash_key_map_inv [of _ _ ?new, simplified, OF inv(2) old] q ok(1) by simp
    ultimately show ?thesis
      using False inv(3) old q v
      by (simp add: update_awaited_action_def Let_def db_inv_def client_inv_same)
  qed
qed

section \<open>Counting clients\<close>

lemma card_clients_split:
  assumes "finite (dom cl)"
  shows "card {x. cl x = Some op} =
    card {x. x \<noteq> c \<and> cl x = Some op} + (if cl c = Some op then 1 else 0)"
proof -
  have fin: "finite {x. x \<noteq> c \<and> cl x = Some op}"
    by (rule finite_subset [OF _ assms]) auto
  have "{x. cl x = Some op} = {x. x \<noteq> c \<and> cl x = Some op} \<union> (if cl c = Some op then {c} else {})"
    by auto
  with fin show ?thesis by simp
qed

lemma card_clients_upd:
  assumes "finite (dom cl)"
  shows "card {x. (cl(c := v)) x = Some op} + (if cl c = Some op then 1 else 0) =
    card {x. cl x = Some op} + (if v = Some op then 1 else 0)"
proof -
  have "finite (dom (cl(c := v)))"
    using assms by (auto intro: finite_subset [of _ "insert c (dom cl)"])
  from card_clients_split [OF this, of op c] card_clients_split [OF assms, of op c]
  show ?thesis by (simp cong: conj_cong)
qed

definition drop_event :: "operation_id option \<Rightarrow> action_event list" where
  "drop_event x = (case x of None \<Rightarrow> [] | Some op \<Rightarrow> [ClientDroppedOperation op])"

lemma client_refs_upd:
  assumes "finite (dom cl)"
  shows "client_refs (cl(c := v)) (evs @ drop_event (cl c)) op =
    client_refs cl evs op + (if v = Some op then 1 else 0)"
  using card_clients_upd [OF assms, of c v op]
  by (cases "cl c") (auto simp: client_refs_def drop_event_def simp del: fun_upd_apply split: if_splits)

lemma client_refs_keep_alive [simp]:
  "client_refs cl (evs @ [ClientKeepAlive c]) op = client_refs cl evs op"
  "client_refs cl (ClientKeepAlive c # evs) op = client_refs cl evs op"
  by (simp_all add: client_refs_def)

lemma client_refs_drop [simp]:
  "client_refs cl (ClientDroppedOperation o' # evs) op =
     client_refs cl evs op + (if op = o' then 1 else 0)"
  by (simp add: client_refs_def)

lemma client_inv_none: "client_inv m cl cc evs \<Longrightarrow> m op = None \<longleftrightarrow> cc op = None"
  unfolding client_inv_def by (metis domIff)

lemma client_inv_connected:
  assumes "client_inv m cl cc evs" "m op = Some a"
  shows "cc op = Some (client_refs cl evs op) \<and> 0 < client_refs cl evs op"
proof -
  from client_inv_none [OF assms(1), of op] assms(2) obtain n where n: "cc op = Some n" by auto
  with assms(1) have "client_refs cl evs op = n" "n \<noteq> 0"
    by (simp add: client_inv_def, metis client_inv_def)
  with n show ?thesis by simp
qed

lemma client_inv_refs_pos:
  "client_inv m cl cc evs \<Longrightarrow> 0 < client_refs cl evs op \<longleftrightarrow> m op \<noteq> None"
  using client_inv_connected [of m cl cc evs op] client_inv_none [of m cl cc evs op]
  by (auto simp: client_inv_def)

section \<open>Client operations keep the invariant\<close>

lemma insert_client_sel [simp]:
  "operations (insert_client c op db) = operations db" "hash_keys (insert_client c op db) = hash_keys db"
  "sorted_actions (insert_client c op db) = sorted_actions db"
  "connected_clients (insert_client c op db) = connected_clients db"
  "dag_snapshot (insert_client c op db) = dag_snapshot db"
  "client_operations (insert_client c op db) = (client_operations db)(c \<mapsto> op)"
  "action_events (insert_client c op db) = action_events db @ drop_event (client_operations db c)"
  by (simp_all add: insert_client_def drop_event_def split: option.splits)

text \<open>A new client entry comes with one more connected client.\<close>

lemma client_inv_insert:
  assumes "client_inv m cl cc evs" "m op = Some a" "cc op = Some n"
  shows "client_inv m (cl(c \<mapsto> op)) (cc(op \<mapsto> n + 1)) (evs @ drop_event (cl c))"
proof -
  have fin: "finite (dom cl)" using assms(1) by (simp add: client_inv_def)
  from assms show ?thesis
    by (auto simp: client_inv_def client_refs_upd [OF fin, where v = "Some op"])
qed

lemma client_inv_insert_new:
  assumes "client_inv m cl cc evs" "m op = None"
  shows "client_inv (m(op \<mapsto> a)) (cl(c \<mapsto> op)) (cc(op \<mapsto> 1)) (evs @ drop_event (cl c))"
proof -
  have fin: "finite (dom cl)" using assms(1) by (simp add: client_inv_def)
  have "cc op = None" using client_inv_none [OF assms(1)] assms(2) by simp
  with assms show ?thesis
    by (auto simp: client_inv_def client_refs_upd [OF fin, where v = "Some op"])
qed

lemma evict_client_inv [inv_intros]:
  assumes "db_inv db"
  shows "db_inv (evict_client c db)"
proof (cases "client_operations db c")
  case (Some op)
  have cl: "client_inv (operations db) (client_operations db) (connected_clients db) (action_events db)"
    using assms by (simp add: db_inv_def)
  then have fin: "finite (dom (client_operations db))" by (simp add: client_inv_def)
  from client_refs_upd [OF fin, of c None] Some
  have "client_refs ((client_operations db)(c := None)) (action_events db @ [ClientDroppedOperation op]) o' =
      client_refs (client_operations db) (action_events db) o'" for o'
    by (simp add: drop_event_def)
  with cl have "client_inv (operations db) ((client_operations db)(c := None)) (connected_clients db)
      (action_events db @ [ClientDroppedOperation op])"
    by (simp add: client_inv_def)
  with assms Some show ?thesis by (simp add: evict_client_def db_inv_def)
qed (use assms in \<open>simp add: evict_client_def\<close>)

lemma client_keep_alive_inv [inv_intros]: "db_inv db \<Longrightarrow> db_inv (client_keep_alive c db)"
  by (simp add: client_keep_alive_def db_inv_def client_inv_def)

lemma keep_alive_same:
  "sorted_from (update_client_keep_alive now a) = sorted_from a"
  "aa_state (update_client_keep_alive now a) = aa_state a"
  "aa_action_info (update_client_keep_alive now a) = aa_action_info a"
  "aa_version (update_client_keep_alive now a) = aa_version a"
  by (simp_all add: update_client_keep_alive_def sorted_from_def)

lemma keep_alive_parts:
  assumes "db_inv db" "operations db op = Some a"
  shows "index_inv ((operations db)(op \<mapsto> update_client_keep_alive now a)) (sorted_actions db)"
    "key_inv ((operations db)(op \<mapsto> update_client_keep_alive now a)) (hash_keys db)"
    "client_inv ((operations db)(op \<mapsto> update_client_keep_alive now a)) (client_operations db)
      (connected_clients db) (action_events db)"
  using assms
  by (simp_all add: db_inv_def index_inv_same key_inv_same client_inv_same keep_alive_same)

lemma db_connected:
  assumes "db_inv db" "operations db op = Some a"
  shows "connected_clients db op = Some (client_refs (client_operations db) (action_events db) op) \<and>
    0 < client_refs (client_operations db) (action_events db) op"
  by (rule client_inv_connected [of "operations db" _ _ _ op a]) (use assms in \<open>simp_all add: db_inv_def\<close>)

lemma key_inv_new:
  assumes "key_inv m hk" "m op = None" "\<not> a_finished a"
    and "\<And>k. a_qualifier a = Cacheable k \<Longrightarrow> hk k = None"
  shows "key_inv (m(op \<mapsto> a)) (case a_qualifier a of Cacheable k \<Rightarrow> hk(k \<mapsto> op) | Uncacheable _ \<Rightarrow> hk)"
  unfolding key_inv_def
proof (intro allI)
  fix k op'
  from assms(1) have "hk k = Some op' \<longleftrightarrow> (\<exists>a. m op' = Some a \<and> a_qualifier a = Cacheable k \<and> \<not> a_finished a)"
    by (simp add: key_inv_def)
  with assms(2-4) show "(case a_qualifier a of Cacheable k \<Rightarrow> hk(k \<mapsto> op) | Uncacheable _ \<Rightarrow> hk) k = Some op' \<longleftrightarrow>
      (\<exists>a'. (m(op \<mapsto> a)) op' = Some a' \<and> a_qualifier a' = Cacheable k \<and> \<not> a_finished a')"
    by (cases "op' = op"; cases "a_qualifier a") (auto split: if_splits)
qed

text \<open>
  Under the invariant a subscription never fails: it finds the unfinished operation of the key, or
  none.
\<close>

definition joined :: "system_time \<Rightarrow> operation_id \<Rightarrow> operation_id \<Rightarrow> awaited_action \<Rightarrow> awaited_action_db \<Rightarrow> awaited_action_db" where
  "joined now client op a db =
     insert_client client op
       (db\<lparr>connected_clients := (connected_clients db)(op \<mapsto> the (connected_clients db op) + 1),
           operations := (operations db)(op \<mapsto> update_client_keep_alive now a)\<rparr>)"

lemma try_subscribe_cases:
  assumes "db_inv db"
  obtains
    (none) "try_subscribe now client q db = (Inr None, db)"
      "\<And>k. q = Cacheable k \<Longrightarrow> hash_keys db k = None"
  | (join) k op a where "q = Cacheable k" "hash_keys db k = Some op" "operations db op = Some a"
      "a_qualifier a = Cacheable k" "\<not> a_finished a"
      "try_subscribe now client q db =
        (Inr (Some \<lparr>sub_operation_id = op, sub_client_id = Some client\<rparr>), joined now client op a db)"
proof (cases q)
  case (Uncacheable k)
  then show thesis by (intro none) (simp_all add: try_subscribe_def)
next
  case (Cacheable k)
  show thesis
  proof (cases "hash_keys db k")
    case None
    with Cacheable show thesis by (intro none) (simp_all add: try_subscribe_def)
  next
    case (Some op)
    have "key_inv (operations db) (hash_keys db)" using assms by (simp add: db_inv_def)
    from key_inv_Some [OF this Some] obtain a where a: "operations db op = Some a"
      "a_qualifier a = Cacheable k" "\<not> a_finished a" by blast
    have "connected_clients db op \<noteq> None" using db_connected [OF assms a(1)] by simp
    with a Cacheable Some show thesis
      by (intro join [of k op a]) (auto simp: try_subscribe_def joined_def)
  qed
qed

lemma joined_inv:
  assumes "db_inv db" "operations db op = Some a"
  shows "db_inv (joined now client op a db)"
proof -
  note parts = keep_alive_parts [OF assms, of now]
  have "connected_clients db op = Some (the (connected_clients db op))"
    using db_connected [OF assms] by simp
  from client_inv_insert [OF parts(3) _ this, of _ client] parts(1,2) show ?thesis
    by (simp add: db_inv_def joined_def)
qed

lemma try_subscribe_inv [inv_intros]:
  assumes "db_inv db"
  shows "db_inv (snd (try_subscribe now client q db))"
  using assms by (rule try_subscribe_cases [of db now client q]) (simp_all add: assms joined_inv)

text \<open>A new awaited action is queued, with the identity it is given.\<close>

lemma awaited_action_new_sel:
  assumes "awaited_action_new_with_criticality decode bg op info now dag = Some a"
  shows "aa_operation_id a = op" "stage (aa_state a) = Queued" "aa_action_info a = info"
    "aa_attempts a = 0" "aa_version a = 0" "aa_worker_id a = None"
  using assms by (auto simp: awaited_action_new_with_criticality_def Let_def split: option.splits)

text \<open>The database after adding a new action.\<close>

definition added :: "operation_id \<Rightarrow> operation_id \<Rightarrow> awaited_action \<Rightarrow> awaited_action_db \<Rightarrow> awaited_action_db" where
  "added client op a db =
     (insert_client client op (make_client_awaited_action op a db))
       \<lparr>hash_keys := (case a_qualifier a of Cacheable key \<Rightarrow> (hash_keys db)(key \<mapsto> op) | Uncacheable _ \<Rightarrow> hash_keys db),
        sorted_actions := (sorted_actions db)\<lparr>queued := insert (sorted_from a) (queued (sorted_actions db))\<rparr>\<rparr>"

lemma add_action_cases:
  assumes "db_inv db" "operations db fresh = None"
  obtains
    (join) k op a where "unique_qualifier info = Cacheable k" "hash_keys db k = Some op"
      "operations db op = Some a" "a_qualifier a = Cacheable k" "\<not> a_finished a"
      "add_action decode bg fresh now client info db =
        Some (Inr \<lparr>sub_operation_id = op, sub_client_id = Some client\<rparr>, joined now client op a db)"
  | (panic) "add_action decode bg fresh now client info db = None" "insert_timestamp info < 0"
  | (new) a where "\<And>k. unique_qualifier info = Cacheable k \<Longrightarrow> hash_keys db k = None"
      "awaited_action_new_with_criticality decode bg fresh info now (dag_snapshot db) = Some a"
      "add_action decode bg fresh now client info db =
        Some (Inr \<lparr>sub_operation_id = fresh, sub_client_id = Some client\<rparr>, added client fresh a db)"
proof (rule try_subscribe_cases [OF assms(1), of now client "unique_qualifier info"])
  fix k op a
  assume "unique_qualifier info = Cacheable k" "hash_keys db k = Some op" "operations db op = Some a"
    "a_qualifier a = Cacheable k" "\<not> a_finished a"
    "try_subscribe now client (unique_qualifier info) db =
      (Inr (Some \<lparr>sub_operation_id = op, sub_client_id = Some client\<rparr>), joined now client op a db)"
  then show thesis by (intro join) (simp_all add: add_action_def)
next
  assume none: "try_subscribe now client (unique_qualifier info) db = (Inr None, db)"
    "\<And>k. unique_qualifier info = Cacheable k \<Longrightarrow> hash_keys db k = None"
  show thesis
  proof (cases "awaited_action_new_with_criticality decode bg fresh info now (dag_snapshot db)")
    case None
    then have "insert_timestamp info < 0"
      by (auto simp: awaited_action_new_with_criticality_def sort_key_new_with_unique_key_def
          duration_since_def Let_def split: option.splits if_splits)
    with None none show thesis by (intro panic) (simp_all add: add_action_def)
  next
    case (Some a)
    note sel = awaited_action_new_sel [OF Some]
    have inv: "ids_ok (operations db)" "queued (sorted_actions db) = bucket_set (operations db) 2"
      using assms(1) unfolding db_inv_def index_inv_def
      by (simp_all, metis bucket_of.simps(3) btree_for_state.simps(3))
    have sa: "SortedAwaitedAction (aa_sort_key a) fresh = sorted_from a"
      using sel(1) by (simp add: sorted_from_def)
    have "sorted_from a \<notin> queued (sorted_actions db)"
      using bucket_set_fresh [OF inv(1), of a 2] inv(2) assms(2) sel(1) by simp
    then have "add_action decode bg fresh now client info db =
        Some (Inr \<lparr>sub_operation_id = fresh, sub_client_id = Some client\<rparr>, added client fresh a db)"
      using none(1) Some sel(3)
      by (simp add: add_action_def sa insert_sort_map_for_stage_def added_def Let_def
          make_client_awaited_action_def split: action_unique_qualifier.split)
    with none(2) Some show thesis by (intro new) auto
  qed
qed

lemma added_inv:
  assumes inv: "db_inv db" and fresh: "operations db op = None"
    and a: "aa_operation_id a = op" "stage (aa_state a) = Queued"
    and key: "\<And>k. a_qualifier a = Cacheable k \<Longrightarrow> hash_keys db k = None"
  shows "db_inv (added client op a db)"
proof -
  let ?m = "(operations db)(op \<mapsto> a)"
  have ix: "ids_ok (operations db)" "finite (dom (operations db))"
    "\<And>stg. btree_for_state stg (sorted_actions db) = bucket_set (operations db) (bucket_of stg)"
    using inv by (simp_all add: db_inv_def index_inv_def)
  have del: "(operations db)(op := None) = operations db" using fresh by auto
  have "index_inv ?m ((sorted_actions db)\<lparr>queued := insert (sorted_from a) (queued (sorted_actions db))\<rparr>)"
  proof -
    have "btree_for_state stg ((sorted_actions db)\<lparr>queued := insert (sorted_from a) (queued (sorted_actions db))\<rparr>) =
        bucket_set ?m (bucket_of stg)" for stg
      using ix(3) [of stg] ix(3) [of Queued] a(2)
      by (cases stg) (simp_all add: bucket_set_upd del)
    with ix a(1) show ?thesis by (simp add: index_inv_def ids_ok_upd)
  qed
  moreover have "key_inv ?m (case a_qualifier a of Cacheable key \<Rightarrow> (hash_keys db)(key \<mapsto> op)
      | Uncacheable _ \<Rightarrow> hash_keys db)"
  proof -
    from inv have "key_inv (operations db) (hash_keys db)" by (simp add: db_inv_def)
    from this fresh _ key show ?thesis by (rule key_inv_new) (simp add: a(2) is_finished_def)
  qed
  moreover have "client_inv ?m ((client_operations db)(client \<mapsto> op)) ((connected_clients db)(op \<mapsto> 1))
      (action_events db @ drop_event (client_operations db client))"
    using inv fresh by (intro client_inv_insert_new) (simp_all add: db_inv_def)
  ultimately show ?thesis
    by (simp add: db_inv_def added_def make_client_awaited_action_def)
qed

lemma add_action_inv [inv_intros]:
  assumes "db_inv db" "operations db fresh = None"
    and "add_action decode bg fresh now client info db = Some (r, db')"
  shows "db_inv db'"
proof (rule add_action_cases [OF assms(1,2), of info decode bg now client])
  fix k op a
  assume "operations db op = Some a" "add_action decode bg fresh now client info db =
      Some (Inr \<lparr>sub_operation_id = op, sub_client_id = Some client\<rparr>, joined now client op a db)"
  with assms show ?thesis by (auto intro: joined_inv)
next
  assume "add_action decode bg fresh now client info db = None"
  with assms(3) show ?thesis by simp
next
  fix a
  assume key: "\<And>k. unique_qualifier info = Cacheable k \<Longrightarrow> hash_keys db k = None"
    and a: "awaited_action_new_with_criticality decode bg fresh info now (dag_snapshot db) = Some a"
    and "add_action decode bg fresh now client info db =
      Some (Inr \<lparr>sub_operation_id = fresh, sub_client_id = Some client\<rparr>, added client fresh a db)"
  moreover note sel = awaited_action_new_sel [OF a]
  ultimately show ?thesis
    using added_inv [OF assms(1,2) sel(1,2), of client] assms(3) by auto
qed

section \<open>Events keep the invariant\<close>

lemma key_inv_del:
  assumes "key_inv m hk" "m op = Some a"
  shows "key_inv (m(op := None)) (\<lambda>k. if hk k = Some op then None else hk k)"
  unfolding key_inv_def
proof (intro allI)
  fix k op'
  from assms(1) have "hk k = Some op' \<longleftrightarrow> (\<exists>a. m op' = Some a \<and> a_qualifier a = Cacheable k \<and> \<not> a_finished a)"
    by (simp add: key_inv_def)
  then show "(if hk k = Some op then None else hk k) = Some op' \<longleftrightarrow>
      (\<exists>a. (m(op := None)) op' = Some a \<and> a_qualifier a = Cacheable k \<and> \<not> a_finished a)"
    by (cases "op' = op") auto
qed

lemma hash_keys_forget:
  assumes "key_inv m hk" "m op = Some a"
  shows "(case a_qualifier a of
      Cacheable key \<Rightarrow> if hk key = Some op then hk(key := None) else hk
    | Uncacheable _ \<Rightarrow> hk) = (\<lambda>k. if hk k = Some op then None else hk k)"
proof -
  have "a_qualifier a = Cacheable k" if "hk k = Some op" for k
    using key_inv_Some [OF assms(1) that] assms(2) by auto
  then show ?thesis by (auto simp: fun_eq_iff split: action_unique_qualifier.splits)
qed

lemma client_inv_drop:
  assumes "client_inv m cl cc (ClientDroppedOperation op # evs)"
    and n: "n = client_refs cl evs op"
  shows "n = 0 \<Longrightarrow> client_inv (m(op := None)) cl (cc(op := None)) evs"
    and "0 < n \<Longrightarrow> client_inv m cl (cc(op \<mapsto> n)) evs"
proof -
  have fin: "finite (dom cl)" and d: "dom cc = dom m" and nz: "\<forall>x. cc x \<noteq> Some 0"
    and refs: "\<forall>x. client_refs cl (ClientDroppedOperation op # evs) x = (case cc x of None \<Rightarrow> 0 | Some n \<Rightarrow> n)"
    using assms(1) unfolding client_inv_def by blast+
  have other: "client_refs cl evs x = (case cc x of None \<Rightarrow> 0 | Some n \<Rightarrow> n)" if "x \<noteq> op" for x
    using refs [rule_format, of x] that by simp
  show "client_inv (m(op := None)) cl (cc(op := None)) evs" if "n = 0"
    using that n fin d nz other by (auto simp: client_inv_def)
  have "op \<in> dom m" using refs [rule_format, of op] d by (cases "cc op") auto
  then show "client_inv m cl (cc(op \<mapsto> n)) evs" if "0 < n"
    using that n fin d nz other by (auto simp: client_inv_def)
qed

text \<open>The database after its last client of an operation has gone.\<close>

definition removed :: "operation_id \<Rightarrow> awaited_action \<Rightarrow> awaited_action_db \<Rightarrow> awaited_action_db" where
  "removed op a db =
     db\<lparr>operations := (operations db)(op := None), connected_clients := (connected_clients db)(op := None),
        hash_keys := (\<lambda>k. if hash_keys db k = Some op then None else hash_keys db k),
        sorted_actions := set_btree_for_state (stage (aa_state a))
          (btree_for_state (stage (aa_state a)) (sorted_actions db) - {sorted_from a}) (sorted_actions db)\<rparr>"

lemma client_dropped_cases:
  assumes inv: "db_inv (db\<lparr>action_events := ClientDroppedOperation op # evs\<rparr>)"
  obtains a where "operations db op = Some a"
    "client_dropped_operation op db =
      (if client_refs (client_operations db) evs op = 0 then removed op a db
       else db\<lparr>connected_clients := (connected_clients db)(op \<mapsto> client_refs (client_operations db) evs op)\<rparr>)"
proof -
  let ?n = "client_refs (client_operations db) evs op"
  have cl: "client_inv (operations db) (client_operations db) (connected_clients db)
      (ClientDroppedOperation op # evs)" and ki: "key_inv (operations db) (hash_keys db)"
    and ids: "ids_ok (operations db)"
    using inv by (simp_all add: db_inv_def index_inv_def)
  from client_inv_refs_pos [OF cl, of op] obtain a where a: "operations db op = Some a" by auto
  have cc: "connected_clients db op = Some (?n + 1)"
    using client_inv_connected [of "operations db" _ _ _ op a, OF cl a] by simp
  have sa: "SortedAwaitedAction (aa_sort_key a) op = sorted_from a"
    using ids a by (simp add: sorted_from_def ids_ok_def)
  show thesis
  proof (rule that [OF a])
    show "client_dropped_operation op db =
      (if ?n = 0 then removed op a db
       else db\<lparr>connected_clients := (connected_clients db)(op \<mapsto> ?n)\<rparr>)"
    proof (cases "?n = 0")
      case True
      with a cc sa hash_keys_forget [OF ki a] show ?thesis
        by (cases "a_qualifier a") (auto simp: client_dropped_operation_def removed_def Let_def)
    next
      case False
      have "(operations db)(op \<mapsto> a) = operations db" using a by auto
      with False a cc show ?thesis by (simp add: client_dropped_operation_def Let_def)
    qed
  qed
qed

lemma removed_inv:
  assumes inv: "db_inv (db\<lparr>action_events := ClientDroppedOperation op # evs\<rparr>)"
    and a: "operations db op = Some a" and last: "client_refs (client_operations db) evs op = 0"
  shows "db_inv ((removed op a db)\<lparr>action_events := evs\<rparr>)"
proof -
  have cl: "client_inv (operations db) (client_operations db) (connected_clients db)
      (ClientDroppedOperation op # evs)" and ki: "key_inv (operations db) (hash_keys db)"
    and ids: "ids_ok (operations db)" and fin: "finite (dom (operations db))"
    and b: "\<And>stg. btree_for_state stg (sorted_actions db) = bucket_set (operations db) (bucket_of stg)"
    using inv by (simp_all add: db_inv_def index_inv_def)
  have "btree_for_state stg (sorted_actions (removed op a db)) =
      bucket_set ((operations db)(op := None)) (bucket_of stg)" for stg
    using bucket_set_mem [of "operations db" op a "bucket_of stg", OF ids a]
      bucket_set_del [of "operations db" op a "bucket_of stg", OF ids a]
    by (auto simp: removed_def b)
  moreover have "client_inv ((operations db)(op := None)) (client_operations db)
      ((connected_clients db)(op := None)) evs"
    using cl last by (intro client_inv_drop(1)) simp_all
  ultimately show ?thesis
    using ids fin key_inv_del [of "operations db" "hash_keys db" op a, OF ki a]
    by (simp add: db_inv_def index_inv_def removed_def ids_ok_del)
qed

lemma client_dropped_inv:
  assumes "db_inv (db\<lparr>action_events := ClientDroppedOperation op # evs\<rparr>)"
  shows "db_inv ((client_dropped_operation op db)\<lparr>action_events := evs\<rparr>)"
proof -
  from client_dropped_cases [OF assms] obtain a where a: "operations db op = Some a"
    "client_dropped_operation op db =
      (if client_refs (client_operations db) evs op = 0 then removed op a db
       else db\<lparr>connected_clients := (connected_clients db)(op \<mapsto> client_refs (client_operations db) evs op)\<rparr>)" .
  show ?thesis
  proof (cases "client_refs (client_operations db) evs op = 0")
    case True
    with a removed_inv [OF assms a(1) True] show ?thesis by simp
  next
    case False
    have "client_inv (operations db) (client_operations db)
        ((connected_clients db)(op \<mapsto> client_refs (client_operations db) evs op)) evs"
      using assms False by (intro client_inv_drop(2)) (simp_all add: db_inv_def)
    with assms a(2) False show ?thesis by (simp add: db_inv_def)
  qed
qed

lemma handle_action_event_inv:
  assumes "db_inv (db\<lparr>action_events := e # evs\<rparr>)"
  shows "db_inv ((handle_action_event now e db)\<lparr>action_events := evs\<rparr>)"
proof (cases e)
  case (ClientDroppedOperation op)
  with assms client_dropped_inv show ?thesis by simp
next
  case (ClientKeepAlive c)
  with assms have inv: "db_inv (db\<lparr>action_events := evs\<rparr>)" by (simp add: db_inv_def client_inv_def)
  show ?thesis
  proof (cases "Option.bind (client_operations db c) (operations db)")
    case None
    with ClientKeepAlive inv show ?thesis by (auto simp: bind_eq_None_conv split: option.splits)
  next
    case (Some a)
    then obtain op where op: "client_operations db c = Some op" "operations db op = Some a"
      by (auto simp: bind_eq_Some_conv)
    with keep_alive_parts [OF inv, of op a now] ClientKeepAlive show ?thesis by (simp add: db_inv_def)
  qed
qed

lemma handle_action_event_events [frame_simps]:
  "handle_action_event now e (db\<lparr>action_events := evs\<rparr>) = (handle_action_event now e db)\<lparr>action_events := evs\<rparr>"
  by (cases e) (auto simp: client_dropped_operation_def Let_def
      split: option.splits action_unique_qualifier.splits)

lemma handle_action_events_inv:
  "db_inv (db\<lparr>action_events := es @ evs\<rparr>) \<Longrightarrow>
     db_inv ((handle_action_events now es db)\<lparr>action_events := evs\<rparr>)"
  unfolding handle_action_events_def
proof (induction es arbitrary: db)
  case (Cons e es)
  from Cons.prems have "db_inv (db\<lparr>action_events := e # (es @ evs)\<rparr>)" by simp
  from Cons.IH [OF handle_action_event_inv [OF this]] show ?case by simp
qed simp

lemma handle_action_events_frame [frame_simps]:
  "handle_action_events now es (db\<lparr>action_events := evs\<rparr>) = (handle_action_events now es db)\<lparr>action_events := evs\<rparr>"
  unfolding handle_action_events_def
  by (induction es arbitrary: db) (simp_all add: handle_action_event_events)

lemma handle_action_event_clients [frame_simps]:
  "client_operations (handle_action_event now e db) = client_operations db"
  by (cases e) (auto simp: client_dropped_operation_def Let_def
      split: option.splits action_unique_qualifier.splits)

lemma handle_action_events_clients [frame_simps]:
  "client_operations (handle_action_events now es db) = client_operations db"
  unfolding handle_action_events_def
  by (induction es arbitrary: db) (simp_all add: handle_action_event_clients)

section \<open>Ranges\<close>

fun state_bucket :: "sorted_state \<Rightarrow> nat" where
  "state_bucket SCacheCheck = 1"
| "state_bucket SQueued = 2"
| "state_bucket SExecuting = 3"
| "state_bucket SCompleted = 4"

abbreviation plain_subscriber :: "sorted_awaited_action \<Rightarrow> subscriber" where
  "plain_subscriber sa \<equiv> \<lparr>sub_operation_id = sa_operation_id sa, sub_client_id = None\<rparr>"

lemma btree_of_sorted_state_eq:
  assumes "index_inv m s"
  shows "btree_of_sorted_state st s = bucket_set m (state_bucket st)"
proof -
  have "btree_for_state stg s = bucket_set m (bucket_of stg)" for stg
    using assms by (simp add: index_inv_def)
  from this [of CacheCheck] this [of Queued] this [of Executing] this [of "Completed undefined"]
  show ?thesis by (cases st) simp_all
qed

lemma bucket_set_finite: "finite (dom m) \<Longrightarrow> finite (bucket_set m b)"
proof -
  assume "finite (dom m)"
  then have "finite (sorted_from ` ran m)" by (simp add: finite_ran)
  moreover have "bucket_set m b \<subseteq> sorted_from ` ran m" by (auto simp: bucket_set_def ran_def)
  ultimately show ?thesis by (rule rev_finite_subset)
qed

lemma range_item_ok:
  assumes "ids_ok (operations db)" "sa \<in> bucket_set (operations db) b"
  shows "range_item db sa = Inr (sa, plain_subscriber sa)"
  using assms by (auto simp: range_item_def get_by_operation_id_def ids_ok_def elim!: bucket_setE)

lemma collect_results_map_comp: "collect_results f (map g xs) = collect_results (\<lambda>x. f (g x)) xs"
  by (induction xs) (simp_all split: sum.split)

text \<open>One round over a non-panicking range yields the elements of the range, best or worst first.\<close>

lemma range_chunk_eq:
  assumes "db_inv db" "\<not> range_panics lo hi"
    and ks: "ks = filter (\<lambda>x. above lo x \<and> below hi x)
      (sorted_list_of_set (bucket_set (operations db) (state_bucket st)))"
    and out: "out = (if desc then rev ks else ks)"
  shows "range_chunk st desc lo hi db = Some (Inr (if out = [] then None
    else Some (if desc then (lo, Excluded (last out), map plain_subscriber out)
               else (Excluded (last out), hi, map plain_subscriber out))))"
proof -
  have ix: "ids_ok (operations db)" "finite (dom (operations db))"
    "index_inv (operations db) (sorted_actions db)"
    using assms(1) by (simp_all add: db_inv_def index_inv_def)
  let ?tip = "err_tip ''In AwaitedActionDb::get_range_of_actions''"
  have "range_item db sa = Inr (sa, plain_subscriber sa)" if "sa \<in> set out" for sa
  proof (rule range_item_ok [OF ix(1)])
    show "sa \<in> bucket_set (operations db) (state_bucket st)"
      using that bucket_set_finite [OF ix(2)] by (auto simp: out ks split: if_splits)
  qed
  then have "collect_results (\<lambda>x. ?tip (?tip (range_item db x))) out =
      Inr (map (\<lambda>sa. (sa, plain_subscriber sa)) out)"
    by (intro collect_results_map) simp
  moreover have "get_range_of_actions st lo hi db = Some (map (range_item db) ks)"
    using assms(2) by (simp add: get_range_of_actions_def btree_range_def ks
        btree_of_sorted_state_eq [OF ix(3)])
  moreover have "(if desc then rev (map (range_item db) ks) else map (range_item db) ks) = map (range_item db) out"
    by (simp add: out rev_map)
  ultimately show ?thesis
    by (auto simp: range_chunk_def collect_results_map_comp Let_def last_map comp_def)
qed

end
