(* ===== verification/Awaited_Action_Db_Props.thy ===== *)
theory Awaited_Action_Db_Props
  imports Awaited_Action_Db_Inv
begin

text \<open>
  The database as a transition system, and what its clients rely on: the invariant holds in every
  reachable state; an update is a compare-and-swap on the version; the stream over a stage yields
  each of its operations once, best first; adding an action joins the unfinished operation with the
  same key or queues a new one; an operation lives exactly as long as a client refers to it.
\<close>

section \<open>Reachable databases\<close>

inductive db_step :: "awaited_action_db \<Rightarrow> awaited_action_db \<Rightarrow> bool" where
  step_add: "operations db fresh = None \<Longrightarrow>
    add_action decode bg fresh now client info db = Some (r, db') \<Longrightarrow> db_step db db'"
| step_update: "\<forall>old. operations db (aa_operation_id new) = Some old \<longrightarrow> update_ok old new \<Longrightarrow>
    db_step db (snd (update_awaited_action new db))"
| step_evict: "db_step db (evict_client client db)"
| step_keep_alive: "db_step db (client_keep_alive client db)"
| step_events: "db_step db (event_cycle now db)"
| step_dag: "db_step db (set_dag_criticality dag db)"

inductive db_reachable :: "awaited_action_db \<Rightarrow> bool" where
  reach_new: "db_reachable db_new"
| reach_step: "db_reachable db \<Longrightarrow> db_step db db' \<Longrightarrow> db_reachable db'"

lemma event_cycle_inv [inv_intros]:
  assumes "db_inv db"
  shows "db_inv (event_cycle now db)"
proof -
  let ?es = "take MAX_ACTION_EVENTS_RX_PER_CYCLE (action_events db)"
  let ?evs = "drop MAX_ACTION_EVENTS_RX_PER_CYCLE (action_events db)"
  have "db\<lparr>action_events := ?es @ ?evs\<rparr> = db" by simp
  with assms have "db_inv (db\<lparr>action_events := ?es @ ?evs\<rparr>)" by simp
  from handle_action_events_inv [OF this] show ?thesis
    by (simp add: event_cycle_def Let_def handle_action_events_frame)
qed

lemma db_step_inv: "db_step db db' \<Longrightarrow> db_inv db \<Longrightarrow> db_inv db'"
proof (induction rule: db_step.induct)
  case (step_dag db dag)
  then show ?case by (simp add: set_dag_criticality_def db_inv_def)
qed (auto intro: inv_intros)

lemma db_reachable_inv: "db_reachable db \<Longrightarrow> db_inv db"
  by (induction rule: db_reachable.induct) (auto intro: db_inv_new db_step_inv)

section \<open>A small database\<close>

definition demo_info :: action_info where
  "demo_info =
     \<lparr>command_digest = demo_digest, input_root_digest = demo_digest, timeout = 60,
      platform_properties = Map.empty, priority = 5, load_timestamp = 1, insert_timestamp = 2000000000,
      unique_qualifier = Cacheable \<lparr>auk_instance_name = ''main'', auk_digest_function = Sha256,
        auk_digest = demo_digest\<rparr>, targetkey = None\<rparr>"

definition demo_action :: awaited_action where
  "demo_action =
     \<lparr>aa_version = 0, aa_action_info = demo_info, aa_operation_id = Uuid 1,
      aa_sort_key = sort_key_new_with_criticality 5 0 2, aa_last_worker_updated = 10,
      aa_last_client_keepalive = 10, aa_worker_id = None,
      aa_state = \<lparr>stage = Queued, last_transition_timestamp = 10, client_operation_id = Uuid 1,
        action_digest = demo_digest\<rparr>,
      aa_origin_metadata = None, aa_attempts = 0\<rparr>"

definition demo_db :: awaited_action_db where
  "demo_db = added (OpString ''c'') (Uuid 1) demo_action db_new"

lemma demo_action_new:
  "awaited_action_new_with_criticality decode None (Uuid 1) demo_info 10 None = Some demo_action"
  by (simp add: awaited_action_new_with_criticality_def origin_metadata_of_def demo_info_def
      enqueue_criticality_def sort_key_new_with_unique_key_def duration_since_def demo_action_def
      auq_digest_def)

lemma demo_db_add:
  "add_action decode None (Uuid 1) 10 (OpString ''c'') demo_info db_new =
     Some (Inr \<lparr>sub_operation_id = Uuid 1, sub_client_id = Some (OpString ''c'')\<rparr>, demo_db)"
proof (rule add_action_cases [OF db_inv_new, of "Uuid 1" demo_info decode None 10 "OpString ''c''"])
  fix a
  assume "awaited_action_new_with_criticality decode None (Uuid 1) demo_info 10 (dag_snapshot db_new) = Some a"
    and *: "add_action decode None (Uuid 1) 10 (OpString ''c'') demo_info db_new =
      Some (Inr \<lparr>sub_operation_id = Uuid 1, sub_client_id = Some (OpString ''c'')\<rparr>,
        added (OpString ''c'') (Uuid 1) a db_new)"
  then have "a = demo_action" using demo_action_new by (simp add: db_new_def)
  with * show ?thesis by (simp add: demo_db_def)
qed (simp_all add: db_new_def demo_info_def)

lemma demo_db_reachable: "db_reachable demo_db"
proof -
  have "db_step db_new demo_db"
    by (rule step_add [OF _ demo_db_add]) (simp add: db_new_def)
  with reach_new show ?thesis by (rule reach_step)
qed

lemma demo_db_sel:
  "operations demo_db = [Uuid 1 \<mapsto> demo_action]" "connected_clients demo_db = [Uuid 1 \<mapsto> 1]"
  "client_operations demo_db = [OpString ''c'' \<mapsto> Uuid 1]" "action_events demo_db = []"
  "queued (sorted_actions demo_db) = {sorted_from demo_action}"
  by (simp_all add: demo_db_def added_def db_new_def make_client_awaited_action_def drop_event_def)

lemma distinct_set_singleton: "distinct xs \<Longrightarrow> set xs = {x} \<Longrightarrow> xs = [x]"
  by (cases xs; cases "tl xs") auto

text \<open>The stream over a stage in descending order, first round and second.\<close>

lemma stage_stream:
  assumes "db_inv db"
  shows "\<exists>ks. sorted_wrt (>) ks \<and>
    set ks = {sorted_from a | op a. operations db op = Some a \<and> bucket_of (stage (aa_state a)) = state_bucket st} \<and>
    range_chunk st True Unbounded Unbounded db = Some (Inr (if ks = [] then None
      else Some (Unbounded, Excluded (last ks), map plain_subscriber ks))) \<and>
    (ks = [] \<or> range_chunk st True Unbounded (Excluded (last ks)) db = Some (Inr None))"
proof -
  let ?S = "bucket_set (operations db) (state_bucket st)"
  let ?ks = "rev (sorted_list_of_set ?S)"
  have fin: "finite ?S"
    using assms by (simp add: db_inv_def index_inv_def bucket_set_finite)
  have "sorted_wrt (>) ?ks"
    by (simp add: sorted_wrt_rev strict_sorted_list_of_set)
  moreover have "set ?ks = {sorted_from a | op a. operations db op = Some a \<and>
      bucket_of (stage (aa_state a)) = state_bucket st}"
    using fin by (auto simp: bucket_set_def)
  moreover have "range_chunk st True Unbounded Unbounded db = Some (Inr (if ?ks = [] then None
      else Some (Unbounded, Excluded (last ?ks), map plain_subscriber ?ks)))"
    using range_chunk_eq [OF assms, of Unbounded Unbounded "sorted_list_of_set ?S" st ?ks True] by simp
  moreover have "?ks = [] \<or> range_chunk st True Unbounded (Excluded (last ?ks)) db = Some (Inr None)"
  proof (cases "?ks = []")
    case False
    then have "last ?ks = Min ?S" using fin by (simp add: last_rev sorted_list_of_set_nonempty)
    then have "filter (\<lambda>x. above Unbounded x \<and> below (Excluded (last ?ks)) x) (sorted_list_of_set ?S) = []"
      using fin by (auto simp: filter_empty_conv not_less)
    with range_chunk_eq [OF assms, of Unbounded "Excluded (last ?ks)" "[]" st "[]" True] show ?thesis
      by simp
  qed simp
  ultimately show ?thesis by blast
qed

section \<open>Properties\<close>






text \<open>
  C18. The stream over a stage, asked for in descending order, hands out every operation of that
  stage exactly once, the greatest sort key first, and then ends.
\<close>

theorem stage_stream_complete:
  assumes "db_inv db"
  shows "\<exists>ks. sorted_wrt (>) ks \<and>
    set ks = {sorted_from a | op a. operations db op = Some a \<and> bucket_of (stage (aa_state a)) = state_bucket st} \<and>
    range_chunk st True Unbounded Unbounded db = Some (Inr (if ks = [] then None
      else Some (Unbounded, Excluded (last ks), map plain_subscriber ks))) \<and>
    (ks = [] \<or> range_chunk st True Unbounded (Excluded (last ks)) db = Some (Inr None))"
  using assms by (rule stage_stream)

theorem stage_stream_complete_witness:
  "range_chunk SQueued True Unbounded Unbounded demo_db =
     Some (Inr (Some (Unbounded, Excluded (sorted_from demo_action),
       [\<lparr>sub_operation_id = Uuid 1, sub_client_id = None\<rparr>])))"
proof -
  obtain ks where ks: "sorted_wrt (>) ks" "set ks = {sorted_from a | op a. operations demo_db op = Some a \<and>
      bucket_of (stage (aa_state a)) = state_bucket SQueued}"
    "range_chunk SQueued True Unbounded Unbounded demo_db = Some (Inr (if ks = [] then None
      else Some (Unbounded, Excluded (last ks), map plain_subscriber ks)))"
    using stage_stream_complete [OF db_reachable_inv [OF demo_db_reachable], of SQueued] by blast
  have "bucket_of (stage (aa_state demo_action)) = 2" by (simp add: demo_action_def)
  then have s: "set ks = {sorted_from demo_action}" using ks(2) by (auto simp: demo_db_sel split: if_splits)
  moreover from ks(1) have "distinct ks" by (induction ks) auto
  ultimately have "ks = [sorted_from demo_action]" by (metis s distinct_set_singleton)
  with ks(3) show ?thesis by (simp add: demo_action_def)
qed

text \<open>
  C11. Adding an action never fails: it joins the unfinished operation with the same cacheable key,
  if there is one, without creating another; otherwise it queues a new operation, with one client.
  Either way the client finds the operation under its own id afterwards.
\<close>

theorem add_action_joins_or_queues:
  assumes "db_inv db" "operations db fresh = None" "0 \<le> insert_timestamp info"
  shows "\<exists>op db'. add_action decode bg fresh now client info db =
      Some (Inr \<lparr>sub_operation_id = op, sub_client_id = Some client\<rparr>, db') \<and>
    get_awaited_action_by_id client db' = Inr (Some \<lparr>sub_operation_id = op, sub_client_id = Some client\<rparr>) \<and>
    (if \<exists>k op' a. unique_qualifier info = Cacheable k \<and> operations db op' = Some a \<and>
          unique_qualifier (aa_action_info a) = Cacheable k \<and> \<not> is_finished (stage (aa_state a))
     then dom (operations db') = dom (operations db) \<and>
       (\<exists>a. operations db op = Some a \<and> unique_qualifier (aa_action_info a) = unique_qualifier info \<and>
         \<not> is_finished (stage (aa_state a)))
     else op = fresh \<and> connected_clients db' fresh = Some 1 \<and>
       (\<exists>a. operations db' = (operations db)(fresh \<mapsto> a) \<and> stage (aa_state a) = Queued \<and>
         aa_action_info a = info))"
proof -
  have "key_inv (operations db) (hash_keys db)" using assms(1) by (simp add: db_inv_def)
  note unfinished = key_inv_unfinished [OF this]
  show ?thesis
  proof (cases rule: add_action_cases [OF assms(1,2), of info decode bg now client])
    case (1 k op a)
    have "dom (operations (joined now client op a db)) = dom (operations db)"
      using 1(3) by (simp add: joined_def insert_absorb domI)
    moreover have "get_awaited_action_by_id client (joined now client op a db) =
        Inr (Some \<lparr>sub_operation_id = op, sub_client_id = Some client\<rparr>)"
      by (simp add: get_awaited_action_by_id_def joined_def)
    ultimately show ?thesis using 1
      by (intro exI [of _ op] exI [of _ "joined now client op a db"]) auto
  next
    case 2
    with assms(3) show ?thesis by simp
  next
    case (3 a)
    have "\<not> (\<exists>k op' a. unique_qualifier info = Cacheable k \<and> operations db op' = Some a \<and>
        a_qualifier a = Cacheable k \<and> \<not> a_finished a)"
      using unfinished 3(1) by fastforce
    moreover have "get_awaited_action_by_id client (added client fresh a db) =
        Inr (Some \<lparr>sub_operation_id = fresh, sub_client_id = Some client\<rparr>)"
      "connected_clients (added client fresh a db) fresh = Some 1"
      "operations (added client fresh a db) = (operations db)(fresh \<mapsto> a)"
      by (simp_all add: get_awaited_action_by_id_def added_def make_client_awaited_action_def)
    ultimately show ?thesis
      using awaited_action_new_sel [OF 3(2)] 3(3)
      by (intro exI [of _ fresh] exI [of _ "added client fresh a db"]) (simp only: if_False simp_thms, blast)
  qed
qed

theorem add_action_joins_or_queues_witness:
  "\<exists>db'. add_action (\<lambda>_. None) None (Uuid 2) 15 (OpString ''d'') demo_info demo_db =
      Some (Inr \<lparr>sub_operation_id = Uuid 1, sub_client_id = Some (OpString ''d'')\<rparr>, db') \<and>
    dom (operations db') = {Uuid 1}"
proof -
  have inv: "db_inv demo_db" "operations demo_db (Uuid 2) = None" "0 \<le> insert_timestamp demo_info"
    using db_reachable_inv [OF demo_db_reachable] by (simp_all add: demo_db_sel demo_info_def)
  have q: "unique_qualifier demo_info = Cacheable \<lparr>auk_instance_name = ''main'',
      auk_digest_function = Sha256, auk_digest = demo_digest\<rparr>"
    by (simp add: demo_info_def)
  have d: "a_qualifier demo_action = Cacheable \<lparr>auk_instance_name = ''main'',
      auk_digest_function = Sha256, auk_digest = demo_digest\<rparr>" "\<not> a_finished demo_action"
    by (simp_all add: demo_action_def q is_finished_def)
  have "\<exists>k op' a. unique_qualifier demo_info = Cacheable k \<and> operations demo_db op' = Some a \<and>
      a_qualifier a = Cacheable k \<and> \<not> a_finished a"
    by (intro exI conjI, rule q, subst demo_db_sel, rule fun_upd_same, rule d, rule d)
  with add_action_joins_or_queues [OF inv, of "\<lambda>_. None" None 15 "OpString ''d''"]
  obtain op db' a where r: "add_action (\<lambda>_. None) None (Uuid 2) 15 (OpString ''d'') demo_info demo_db =
      Some (Inr \<lparr>sub_operation_id = op, sub_client_id = Some (OpString ''d'')\<rparr>, db')"
    "dom (operations db') = dom (operations demo_db)" "operations demo_db op = Some a"
    by (simp only: if_True) blast
  moreover have "op = Uuid 1" using r(3) by (simp add: demo_db_sel split: if_splits)
  ultimately show ?thesis by (simp add: demo_db_sel)
qed

text \<open>
  C15. Once the pending events have been handled, an operation exists exactly when some client entry
  refers to it: nothing is leaked, and nothing a client waits for is removed.
\<close>

theorem operations_are_referenced:
  assumes "db_inv db" "length (action_events db) \<le> MAX_ACTION_EVENTS_RX_PER_CYCLE"
  shows "action_events (event_cycle now db) = [] \<and>
    client_operations (event_cycle now db) = client_operations db \<and>
    dom (operations (event_cycle now db)) = ran (client_operations db)"
proof -
  let ?db = "event_cycle now db"
  have evs: "action_events ?db = []" and cl: "client_operations ?db = client_operations db"
    using assms(2) by (simp_all add: event_cycle_def Let_def frame_simps)
  have inv: "client_inv (operations ?db) (client_operations db) (connected_clients ?db) []"
    using event_cycle_inv [OF assms(1), of now] by (simp add: db_inv_def evs cl)
  have "op \<in> dom (operations ?db) \<longleftrightarrow> op \<in> ran (client_operations db)" for op
  proof -
    have fin: "finite {c. client_operations db c = Some op}"
      using inv by (auto simp: client_inv_def intro: finite_subset [of _ "dom (client_operations db)"])
    have "op \<in> dom (operations ?db) \<longleftrightarrow> 0 < client_refs (client_operations db) [] op"
      using client_inv_refs_pos [OF inv] by (simp add: domIff)
    also have "\<dots> \<longleftrightarrow> op \<in> ran (client_operations db)"
      using fin by (auto simp: client_refs_def ran_def card_gt_0_iff)
    finally show ?thesis .
  qed
  with evs cl show ?thesis by blast
qed

theorem operations_are_referenced_witness:
  "dom (operations (event_cycle 20 (evict_client (OpString ''c'') demo_db))) = {}"
proof -
  have "db_inv (evict_client (OpString ''c'') demo_db)"
    by (rule evict_client_inv [OF db_reachable_inv [OF demo_db_reachable]])
  moreover have "action_events (evict_client (OpString ''c'') demo_db) = [ClientDroppedOperation (Uuid 1)]"
    "client_operations (evict_client (OpString ''c'') demo_db) = Map.empty"
    by (simp_all add: evict_client_def demo_db_sel)
  ultimately show ?thesis
    using operations_are_referenced [of "evict_client (OpString ''c'') demo_db" 20]
    by (simp add: MAX_ACTION_EVENTS_RX_PER_CYCLE_def)
qed

end
