(* ===== verification/State_Manager_Inv.thy ===== *)
theory State_Manager_Inv
  imports State_Manager Awaited_Action_Db_Props
begin

text \<open>
  What the state manager relies on, as a locale: the contract of a database of awaited actions, with
  the value of an operation as its abstraction. The client lemmas are proved once in the locale and
  the in-memory database provides the contract. The second half is the interleaving of any number of
  updates with each other and with everything else the database does: an update in flight is a value
  computed from an earlier read, and the database decides by its version.
\<close>

section \<open>The contract of a database\<close>

abbreviation plain_sub :: "operation_id \<Rightarrow> subscriber" where
  "plain_sub op \<equiv> \<lparr>sub_operation_id = op, sub_client_id = None\<rparr>"

locale awaited_actions =
  fixes ops :: "'db action_db" and lookup :: "'db \<Rightarrow> operation_id \<Rightarrow> awaited_action option"
  assumes get: "db_get_by_operation_id ops op db = Inr (map_option (\<lambda>_. plain_sub op) (lookup db op))"
    and borrow: "lookup db op = Some a \<Longrightarrow> db_borrow ops (plain_sub op) db = Inr a"
    and update_Inr: "db_update_awaited_action ops new db = (Inr u, db') \<Longrightarrow>
      \<exists>old. lookup db (aa_operation_id new) = Some old \<and> aa_version old = aa_version new \<and>
        lookup db' = (lookup db)(aa_operation_id new \<mapsto> increment_version new)"
    and update_Inl: "db_update_awaited_action ops new db = (Inl e, db') \<Longrightarrow> lookup db' = lookup db"
    and update_conflict: "lookup db (aa_operation_id new) = Some old \<Longrightarrow> aa_version old \<noteq> aa_version new \<Longrightarrow>
      \<exists>e. db_update_awaited_action ops new db = (Inl e, db) \<and> err_code e = Aborted"
begin

lemma read_operation [simp]: "read_operation ops tip op db = Inr (lookup db op)"
  by (cases "lookup db op") (simp_all add: read_operation_def get borrow)

text \<open>Writing back stores the action under the next version, or leaves every action alone.\<close>

lemma write_back_lookup:
  assumes "write_back ops env i tip a sm = (r, sm')"
  shows "(r = Return (Inr ()) \<and>
      (\<exists>old. lookup (env_db env i (sm_action_db sm)) (aa_operation_id a) = Some old \<and> aa_version old = aa_version a) \<and>
      lookup (sm_action_db sm') = (lookup (env_db env i (sm_action_db sm)))(aa_operation_id a \<mapsto> increment_version a)) \<or>
    (r \<noteq> Return (Inr ()) \<and> lookup (sm_action_db sm') = lookup (env_db env i (sm_action_db sm)))"
proof -
  obtain x db where u: "db_update_awaited_action ops a (env_db env i (sm_action_db sm)) = (x, db)" by force
  show ?thesis
  proof (cases x)
    case (Inl e)
    with assms u update_Inl [of a "env_db env i (sm_action_db sm)" e db] show ?thesis
      by (auto simp: write_back_def err_tip_def Let_def split: if_splits)
  next
    case (Inr v)
    with assms u update_Inr [of a "env_db env i (sm_action_db sm)" v db] show ?thesis by (auto simp: write_back_def)
  qed
qed

lemma write_back_conflict:
  assumes "lookup (env_db env i (sm_action_db sm)) (aa_operation_id a) = Some old" "aa_version old \<noteq> aa_version a"
  shows "\<exists>e. write_back ops env i tip a sm = (Retry e, sm\<lparr>sm_action_db := env_db env i (sm_action_db sm)\<rparr>) \<and>
    err_code e = Aborted"
  using update_conflict [OF assms] by (auto simp: write_back_def err_tip_def)

text \<open>A finished or missing operation is never written, whoever reports what.\<close>

lemma update_finished:
  assumes "case lookup (sm_action_db sm) op of None \<Rightarrow> True | Some a \<Rightarrow> is_finished (stage (aa_state a))"
  shows "snd (inner_update_operation ops env op wid upd sm) = sm"
  using assms
  by (auto simp: inner_update_operation_def MAX_UPDATE_RETRIES_def numeral_eq_Suc update_attempt_def
      plan_update_def split: option.splits)

lemma timeout_operation_alive:
  assumes "lookup (sm_action_db sm) op = Some a" "registry_alive now a sm"
  shows "timeout_operation_id ops env now op sm = (Inr (), sm)"
  using assms by (simp add: timeout_operation_id_def Let_def)

end

section \<open>The in-memory database provides it\<close>

lemma process_state_changes_error: "process_state_changes old new s = (Inl e, s') \<Longrightarrow> err_code e = Internal"
  by (auto simp: process_state_changes_def insert_sort_map_for_stage_def err_tip_def Let_def
      split: if_splits)

lemma update_awaited_action_Inr:
  assumes "update_awaited_action new db = (Inr u, db')"
  shows "\<exists>old. operations db (aa_operation_id new) = Some old \<and> aa_version old = aa_version new \<and>
    operations db' = (operations db)(aa_operation_id new \<mapsto> increment_version new)"
  using assms by (auto simp: update_awaited_action_def Let_def split: option.splits if_splits prod.splits sum.splits)

lemma update_awaited_action_Inl:
  "update_awaited_action new db = (Inl e, db') \<Longrightarrow> operations db' = operations db"
  by (auto simp: update_awaited_action_def Let_def split: option.splits if_splits prod.splits sum.splits)

lemma memory_borrow_plain: "operations db op = Some a \<Longrightarrow> memory_borrow (plain_sub op) db = Inr a"
  by (simp add: memory_borrow_def subscriber_borrow_def)

interpretation mem: awaited_actions "memory_action_db decode bg fresh now" operations
proof unfold_locales
  fix new old :: awaited_action and db :: awaited_action_db
  assume "operations db (aa_operation_id new) = Some old" "aa_version old \<noteq> aa_version new"
  then show "\<exists>e. db_update_awaited_action (memory_action_db decode bg fresh now) new db = (Inl e, db) \<and>
      err_code e = Aborted"
    by (simp add: memory_action_db_def update_awaited_action_def)
qed (auto simp: memory_action_db_def get_by_operation_id_def memory_borrow_plain update_awaited_action_Inl
    dest: update_awaited_action_Inr split: option.splits)

section \<open>Changes that keep versions\<close>

text \<open>
  Everything but an update either adds a new operation, removes some, or renews the time a client was
  last seen.
\<close>

definition mild :: "ops \<Rightarrow> ops \<Rightarrow> bool" where
  "mild m m' \<longleftrightarrow> (\<forall>op a'. m' op = Some a' \<longrightarrow> (\<exists>a t. m op = Some a \<and> a' = update_client_keep_alive t a))"

lemma keep_alive_id: "update_client_keep_alive (aa_last_client_keepalive a) a = a"
  by (simp add: update_client_keep_alive_def)

lemma mild_refl [simp]: "mild m m"
  unfolding mild_def by (metis keep_alive_id)

lemma mild_trans: "mild m m' \<Longrightarrow> mild m' m'' \<Longrightarrow> mild m m''"
proof -
  have "update_client_keep_alive t (update_client_keep_alive t' a) = update_client_keep_alive t a" for t t' a
    by (simp add: update_client_keep_alive_def)
  then show "mild m m' \<Longrightarrow> mild m' m'' \<Longrightarrow> mild m m''" unfolding mild_def by metis
qed

lemma mild_keep_alive: "m op = Some a \<Longrightarrow> mild m (m(op \<mapsto> update_client_keep_alive t a))"
  unfolding mild_def by (auto split: if_splits) (metis keep_alive_id)+

lemma mild_remove: "mild m (m(op := None))"
  unfolding mild_def by (auto split: if_splits) (metis keep_alive_id)

lemma client_dropped_mild: "mild (operations db) (operations (client_dropped_operation op db))"
proof (cases "operations db op")
  case None
  then show ?thesis by (simp add: client_dropped_operation_def)
next
  case (Some a)
  then have "operations (client_dropped_operation op db) \<in> {operations db, (operations db)(op := None)}"
    by (auto simp: client_dropped_operation_def Let_def split: option.splits action_unique_qualifier.splits)
  then show ?thesis using mild_remove by auto
qed

lemma handle_action_event_mild: "mild (operations db) (operations (handle_action_event now ev db))"
  by (cases ev) (auto simp: client_dropped_mild mild_keep_alive split: option.splits)

lemma handle_action_events_mild: "mild (operations db) (operations (handle_action_events now evs db))"
  unfolding handle_action_events_def
  by (induction evs arbitrary: db) (auto intro: mild_trans [OF handle_action_event_mild])

lemma event_cycle_mild: "mild (operations db) (operations (event_cycle now db))"
  using handle_action_events_mild [of "db\<lparr>action_events := drop MAX_ACTION_EVENTS_RX_PER_CYCLE (action_events db)\<rparr>"]
  by (simp add: event_cycle_def Let_def)

lemma try_subscribe_mild: "mild (operations db) (operations (snd (try_subscribe now client q db)))"
  by (auto simp: try_subscribe_def mild_keep_alive split: action_unique_qualifier.splits option.splits)

lemma add_action_operations:
  assumes "add_action decode bg fresh now client info db = Some (r, db')"
  shows "mild (operations db) (operations db') \<or>
    (\<exists>m a. mild (operations db) m \<and> operations db' = m(fresh \<mapsto> a) \<and> aa_operation_id a = fresh \<and>
      stage (aa_state a) = Queued \<and> aa_version a = 0 \<and> aa_attempts a = 0)"
proof -
  obtain x db1 where t: "try_subscribe now client (unique_qualifier info) db = (x, db1)" by force
  with try_subscribe_mild [of db now client "unique_qualifier info"]
  have mild: "mild (operations db) (operations db1)" by simp
  consider e where "x = Inl e" | sub where "x = Inr (Some sub)" | "x = Inr None"
    by (cases x; cases "projr x") auto
  then show ?thesis
  proof cases
    case 3
    with assms t obtain a where a: "awaited_action_new_with_criticality decode bg fresh info now (dag_snapshot db1) = Some a"
      by (auto simp: add_action_def split: option.splits)
    have "operations db' = (operations db1)(fresh \<mapsto> a)"
      using assms t 3 a
      by (auto simp: add_action_def Let_def make_client_awaited_action_def
          split: action_unique_qualifier.splits prod.splits sum.splits)
    with mild awaited_action_new_sel [OF a] show ?thesis by blast
  qed (use assms t mild in \<open>auto simp: add_action_def\<close>)
qed

section \<open>Interleavings\<close>

text \<open>
  A write an update attempt decides on after reading \<open>a\<close>, and the write of a client timeout. Of the
  database it only depends on the action read.
\<close>

definition planned_write :: "nat \<Rightarrow> awaited_action \<Rightarrow> awaited_action \<Rightarrow> bool" where
  "planned_write retries a w \<longleftrightarrow>
     (\<exists>wid upd now. plan_update retries wid upd now a = PlanKeepAlive w) \<or>
     (\<exists>wid upd now a' s k. plan_update retries wid upd now a = PlanStage a' s k \<and>
        w = write_stage (aa_operation_id a) wid now s a') \<or>
     (\<not> is_finished (stage (aa_state a)) \<and> (\<exists>now now'. w = worker_set_state (client_timed_out_state now a) now' a))"

record schedule =
  sch_db :: awaited_action_db
  sch_pending :: "awaited_action set"
  sch_used :: "operation_id set"

text \<open>
  Any task may read, any write in flight may reach the database, and everything else the database
  does may happen, in any order. New operations get ids that were never used, and the version of an
  operation, an \<^verbatim>\<open>i64\<close>, is short of its end when it is counted up.
\<close>

inductive sched_step :: "nat \<Rightarrow> schedule \<Rightarrow> schedule \<Rightarrow> bool" for retries where
  sched_read: "operations (sch_db s) op = Some a \<Longrightarrow> planned_write retries a w \<Longrightarrow>
    sched_step retries s (s\<lparr>sch_pending := insert w (sch_pending s)\<rparr>)"
| sched_write: "w \<in> sch_pending s \<Longrightarrow> aa_version w < 2 ^ 63 - 1 \<Longrightarrow>
    update_awaited_action w (sch_db s) = (r, db) \<Longrightarrow>
    sched_step retries s (s\<lparr>sch_db := db, sch_pending := sch_pending s - {w}\<rparr>)"
| sched_add: "fresh \<notin> sch_used s \<Longrightarrow>
    add_action decode bg fresh now client info (sch_db s) = Some (r, db) \<Longrightarrow>
    sched_step retries s (s\<lparr>sch_db := db, sch_used := insert fresh (sch_used s)\<rparr>)"
| sched_evict: "sched_step retries s (s\<lparr>sch_db := evict_client client (sch_db s)\<rparr>)"
| sched_keep_alive: "sched_step retries s (s\<lparr>sch_db := client_keep_alive client (sch_db s)\<rparr>)"
| sched_events: "sched_step retries s (s\<lparr>sch_db := event_cycle now (sch_db s)\<rparr>)"

inductive sched_steps :: "nat \<Rightarrow> schedule \<Rightarrow> schedule \<Rightarrow> bool" for retries where
  sched_refl: "sched_steps retries s s"
| sched_more: "sched_steps retries s s' \<Longrightarrow> sched_step retries s' s'' \<Longrightarrow> sched_steps retries s s''"

definition sched_new :: schedule where
  "sched_new = \<lparr>sch_db = db_new, sch_pending = {}, sch_used = {}\<rparr>"

text \<open>
  The invariant: identities, the retry budget of stored and of pending actions, and that a write as
  recent as the stored action was made from an unfinished one.
\<close>

definition within_budget :: "nat \<Rightarrow> awaited_action \<Rightarrow> bool" where
  "within_budget retries a \<longleftrightarrow>
     aa_attempts a \<le> retries + 1 \<and> (\<not> is_finished (stage (aa_state a)) \<longrightarrow> aa_attempts a \<le> retries)"

definition sched_inv :: "nat \<Rightarrow> schedule \<Rightarrow> bool" where
  "sched_inv retries s \<longleftrightarrow>
     ids_ok (operations (sch_db s)) \<and> dom (operations (sch_db s)) \<subseteq> sch_used s \<and>
     aa_operation_id ` sch_pending s \<subseteq> sch_used s \<and>
     (\<forall>op a. operations (sch_db s) op = Some a \<longrightarrow> within_budget retries a) \<and>
     (\<forall>w. w \<in> sch_pending s \<longrightarrow> within_budget retries w) \<and>
     (\<forall>w a. w \<in> sch_pending s \<longrightarrow> operations (sch_db s) (aa_operation_id w) = Some a \<longrightarrow>
        aa_version w \<le> aa_version a \<and> (aa_version w = aa_version a \<longrightarrow> \<not> is_finished (stage (aa_state a))))"

lemma planned_write_sel:
  assumes "planned_write retries a w" "within_budget retries a"
  shows "\<not> is_finished (stage (aa_state a)) \<and> aa_operation_id w = aa_operation_id a \<and>
    aa_version w = aa_version a \<and> aa_action_info w = aa_action_info a \<and> within_budget retries w"
proof -
  have keep: "plan_update retries wid upd now a = PlanKeepAlive w \<Longrightarrow>
      \<not> is_finished (stage (aa_state a)) \<and> w = worker_keep_alive now a" for wid upd now
    by (auto simp: plan_update_def split: if_splits update_operation_type.splits prod.splits)
  have plan: "plan_update retries wid upd now a = PlanStage a' s k \<Longrightarrow>
      \<not> is_finished (stage (aa_state a)) \<and> aa_operation_id a' = aa_operation_id a \<and>
      aa_version a' = aa_version a \<and> aa_action_info a' = aa_action_info a \<and>
      aa_attempts a' \<le> retries + 1 \<and> (is_finished s \<or> aa_attempts a' \<le> retries)" for wid upd now a' s k
    using assms(2)
    by (auto simp: plan_update_def within_budget_def stage_for_result_def stage_for_error_def
        stage_for_disconnect_def too_many_attempts_error_def is_finished_def boost_priority_def Let_def
        split: if_splits update_operation_type.splits prod.splits ActionStage.splits)
  have stored: "aa_operation_id (write_stage op wid now s a') = aa_operation_id a'"
    "aa_version (write_stage op wid now s a') = aa_version a'"
    "aa_action_info (write_stage op wid now s a') = aa_action_info a'"
    "aa_attempts (write_stage op wid now s a') = aa_attempts a'"
    "stage (aa_state (write_stage op wid now s a')) = s" for op wid now s a'
    by (simp_all add: write_stage_def worker_set_state_def set_worker_id_def worker_keep_alive_def Let_def)
  from assms show ?thesis
    unfolding planned_write_def
    by (elim disjE exE conjE)
      (auto dest!: keep plan simp: stored within_budget_def worker_set_state_def worker_keep_alive_def
        client_timed_out_state_def is_finished_def)
qed

lemma mildD:
  assumes "mild m m'" "m' op = Some a'"
  obtains a where "m op = Some a" "aa_operation_id a' = aa_operation_id a" "aa_version a' = aa_version a"
    "aa_state a' = aa_state a" "aa_attempts a' = aa_attempts a"
proof -
  from assms obtain a t where "m op = Some a" "a' = update_client_keep_alive t a" unfolding mild_def by blast
  then show thesis by (intro that [of a]) (simp_all add: update_client_keep_alive_def)
qed

lemma sched_inv_mild:
  assumes "sched_inv retries s" "mild (operations (sch_db s)) (operations db)"
  shows "sched_inv retries (s\<lparr>sch_db := db\<rparr>)"
proof -
  let ?m = "operations (sch_db s)" and ?m' = "operations db"
  note inv = assms(1) [unfolded sched_inv_def]
  have "ids_ok ?m'" using inv by (auto simp: ids_ok_def elim!: mildD [OF assms(2)])
  moreover have "dom ?m' \<subseteq> sch_used s" using inv by (auto simp: dom_def elim!: mildD [OF assms(2)])
  moreover have "within_budget retries a" if "?m' op = Some a" for op a
    using inv by (rule_tac mildD [OF assms(2) that]) (auto simp: within_budget_def)
  moreover have "aa_version w \<le> aa_version a \<and> (aa_version w = aa_version a \<longrightarrow> \<not> is_finished (stage (aa_state a)))"
    if "w \<in> sch_pending s" "?m' (aa_operation_id w) = Some a" for w a
    using inv that(1) by (rule_tac mildD [OF assms(2) that(2)]) auto
  ultimately show ?thesis using inv by (simp add: sched_inv_def)
qed

lemma sched_inv_new_operation:
  assumes "sched_inv retries s" "operations db = (operations (sch_db s))(fresh \<mapsto> a)" "fresh \<notin> sch_used s"
    "aa_operation_id a = fresh" "stage (aa_state a) = Queued" "aa_attempts a = 0"
  shows "sched_inv retries (s\<lparr>sch_db := db, sch_used := insert fresh (sch_used s)\<rparr>)"
proof -
  have "aa_operation_id w \<noteq> fresh" if "w \<in> sch_pending s" for w
    using assms(1,3) that by (auto simp: sched_inv_def)
  with assms show ?thesis
    by (auto simp: sched_inv_def ids_ok_def within_budget_def is_finished_def)
qed

lemma sched_inv_write:
  assumes "sched_inv retries s" "w \<in> sch_pending s" "aa_version w < 2 ^ 63 - 1"
    "update_awaited_action w (sch_db s) = (r, db)"
  shows "sched_inv retries (s\<lparr>sch_db := db, sch_pending := sch_pending s - {w}\<rparr>)"
proof (cases r)
  case (Inl e)
  with assms(4) have "operations db = operations (sch_db s)" by (simp add: update_awaited_action_Inl)
  with assms(1) show ?thesis by (auto simp: sched_inv_def)
next
  case (Inr u)
  with assms(4) obtain old where old: "operations (sch_db s) (aa_operation_id w) = Some old"
    "aa_version old = aa_version w"
    "operations db = (operations (sch_db s))(aa_operation_id w \<mapsto> increment_version w)"
    using update_awaited_action_Inr by blast
  have less: "aa_version w < aa_version w + 1"
    using assms(3) by (simp add: word_less_nat_alt unat_word_ariths unat_of_nat)
  have later: "aa_version w' < aa_version w + 1" "aa_version w' \<noteq> aa_version w + 1" if "w' \<in> sch_pending s" "aa_operation_id w' = aa_operation_id w" for w'
  proof -
    have "aa_version w' \<le> aa_version w" using assms(1) that old by (auto simp: sched_inv_def)
    with less show "aa_version w' < aa_version w + 1" "aa_version w' \<noteq> aa_version w + 1" by auto
  qed
  have "within_budget retries (increment_version w)"
    using assms(1,2) by (auto simp: sched_inv_def within_budget_def increment_version_def)
  with assms(1,2) old(1,3) later show ?thesis
    by (auto simp: sched_inv_def ids_ok_def less_imp_le)
qed

lemma sched_step_inv: "sched_step retries s s' \<Longrightarrow> sched_inv retries s \<Longrightarrow> sched_inv retries s'"
proof (induction rule: sched_step.induct)
  case (sched_read s op a w)
  then have "within_budget retries a" "aa_operation_id a = op" by (auto simp: sched_inv_def ids_ok_def)
  note sel = planned_write_sel [OF sched_read.hyps(2) this(1)] this(2)
  with sched_read show ?case by (auto simp: sched_inv_def)
next
  case (sched_write w s r db)
  then show ?case by (simp add: sched_inv_write)
next
  case (sched_add fresh s decode bg now client info r db)
  from add_action_operations [OF sched_add.hyps(2)] show ?case
  proof (elim disjE exE conjE)
    assume "mild (operations (sch_db s)) (operations db)"
    from sched_inv_mild [OF sched_add.prems this] show ?thesis by (auto simp: sched_inv_def)
  next
    fix m a
    assume m: "mild (operations (sch_db s)) m" and a: "operations db = m(fresh \<mapsto> a)" "aa_operation_id a = fresh"
      "stage (aa_state a) = Queued" "aa_attempts a = 0"
    let ?s = "s\<lparr>sch_db := (sch_db s)\<lparr>operations := m\<rparr>\<rparr>"
    have "sched_inv retries ?s" using sched_add.prems m by (intro sched_inv_mild) simp_all
    from sched_inv_new_operation [OF this, of db fresh a] a sched_add.hyps(1) show ?thesis by simp
  qed
next
  case (sched_evict s client)
  then show ?case by (intro sched_inv_mild) (simp_all add: evict_client_def split: option.split)
next
  case (sched_keep_alive s client)
  then show ?case by (intro sched_inv_mild) (simp_all add: client_keep_alive_def)
next
  case (sched_events s now)
  then show ?case by (intro sched_inv_mild event_cycle_mild)
qed

lemma sched_new_inv: "sched_inv retries sched_new"
  by (simp add: sched_inv_def sched_new_def db_new_def ids_ok_def)

lemma sched_steps_inv: "sched_steps retries s s' \<Longrightarrow> sched_inv retries s \<Longrightarrow> sched_inv retries s'"
  by (induction rule: sched_steps.induct) (auto intro: sched_step_inv)

text \<open>One step never changes the state of a finished operation.\<close>

definition final_or_gone :: "operation_id \<Rightarrow> action_state \<Rightarrow> schedule \<Rightarrow> bool" where
  "final_or_gone op st s \<longleftrightarrow>
     op \<in> sch_used s \<and> is_finished (stage st) \<and>
     (\<forall>a. operations (sch_db s) op = Some a \<longrightarrow> aa_state a = st)"

lemma final_mild:
  assumes "final_or_gone op st s" "mild (operations (sch_db s)) (operations db)"
  shows "final_or_gone op st (s\<lparr>sch_db := db\<rparr>)"
  using assms(1) by (auto simp: final_or_gone_def elim!: mildD [OF assms(2)])

lemma sched_step_final:
  "sched_step retries s s' \<Longrightarrow> sched_inv retries s \<Longrightarrow> final_or_gone op st s \<Longrightarrow> final_or_gone op st s'"
proof (induction rule: sched_step.induct)
  case (sched_read s op' a w)
  then show ?case by (simp add: final_or_gone_def)
next
  case (sched_write w s r db)
  show ?case
  proof (cases r)
    case (Inl e)
    with sched_write show ?thesis by (simp add: final_or_gone_def update_awaited_action_Inl)
  next
    case (Inr u)
    with sched_write.hyps(3) obtain old where old: "operations (sch_db s) (aa_operation_id w) = Some old"
      "aa_version old = aa_version w"
      "operations db = (operations (sch_db s))(aa_operation_id w \<mapsto> increment_version w)"
      using update_awaited_action_Inr by blast
    then have "\<not> is_finished (stage (aa_state old))"
      using sched_write.hyps(1) sched_write.prems(1) by (auto simp: sched_inv_def)
    with old sched_write.prems(2) show ?thesis by (auto simp: final_or_gone_def)
  qed
next
  case (sched_add fresh s decode bg now client info r db)
  then have "op \<noteq> fresh" by (auto simp: final_or_gone_def)
  with add_action_operations [OF sched_add.hyps(2)] sched_add.prems(2) show ?case
    by (auto simp: final_or_gone_def elim!: mildD)
next
  case (sched_evict s client)
  then show ?case by (intro final_mild) (simp_all add: evict_client_def split: option.split)
next
  case (sched_keep_alive s client)
  then show ?case by (intro final_mild) (simp_all add: client_keep_alive_def)
next
  case (sched_events s now)
  then show ?case by (intro final_mild event_cycle_mild)
qed

lemma sched_steps_final:
  "sched_steps retries s s' \<Longrightarrow> sched_inv retries s \<Longrightarrow> final_or_gone op st s \<Longrightarrow>
    sched_inv retries s' \<and> final_or_gone op st s'"
  by (induction rule: sched_steps.induct) (auto intro: sched_step_inv sched_step_final)

end
