(* ===== verification/State_Manager_Props.thy ===== *)
theory State_Manager_Props
  imports State_Manager_Inv
begin

text \<open>
  The properties of the state manager over the in-memory database: what holds in every interleaving
  of updates, what an undisturbed update does, what a failed attempt costs, which operations a filter
  lists, and two situations in which the code does not do what it sets out to do.
\<close>

section \<open>Undisturbed updates\<close>

abbreviation mem_ops :: "awaited_action_db action_db" where
  "mem_ops \<equiv> memory_action_db (\<lambda>_. None) None (Uuid 0) 0"

lemma mem_ops_update [simp]: "db_update_awaited_action (memory_action_db decode bg fresh now) = update_awaited_action"
  by (simp add: memory_action_db_def)

lemma write_stage_sel [simp]:
  "aa_operation_id (write_stage op wid now s a) = aa_operation_id a"
  "aa_version (write_stage op wid now s a) = aa_version a"
  "aa_action_info (write_stage op wid now s a) = aa_action_info a"
  "aa_attempts (write_stage op wid now s a) = aa_attempts a"
  "aa_sort_key (write_stage op wid now s a) = aa_sort_key a"
  "stage (aa_state (write_stage op wid now s a)) = s"
  "aa_worker_id (write_stage op wid now s a) = (if s = Queued then None else wid)"
  by (simp_all add: write_stage_def worker_set_state_def set_worker_id_def worker_keep_alive_def Let_def)

text \<open>Without a conflict the first attempt writes the stage it decided on.\<close>

lemma update_stage_quiet:
  assumes inv: "db_inv (sm_action_db sm)" and quiet: "env_db env 0 = (\<lambda>db. db)"
    and a: "operations (sm_action_db sm) op = Some a"
    and plan: "plan_update (max_job_retries sm) wid upd (env_now env 0) a = PlanStage a' s k"
    and same: "aa_operation_id a' = op" "aa_version a' = aa_version a" "aa_action_info a' = aa_action_info a"
  shows "fst (inner_update_operation (memory_action_db decode bg fresh t) env op wid upd sm) = Inr () \<and>
    sm_action_db (snd (inner_update_operation (memory_action_db decode bg fresh t) env op wid upd sm)) =
      snd (update_awaited_action (write_stage op wid (env_now env 0) s a') (sm_action_db sm))"
proof -
  let ?w = "write_stage op wid (env_now env 0) s a'"
  have "fst (update_awaited_action ?w (sm_action_db sm)) = Inr ()"
    by (simp add: update_result [OF inv] a same)
  then obtain db where "update_awaited_action ?w (sm_action_db sm) = (Inr (), db)" by (metis prod.collapse)
  then show ?thesis
    by (simp add: inner_update_operation_def MAX_UPDATE_RETRIES_def numeral_eq_Suc update_attempt_def a
        plan write_back_def quiet)
qed

lemma update_stage_operations:
  assumes "db_inv (sm_action_db sm)" "env_db env 0 = (\<lambda>db. db)" "operations (sm_action_db sm) op = Some a"
    "plan_update (max_job_retries sm) wid upd (env_now env 0) a = PlanStage a' s k"
    "aa_operation_id a' = op" "aa_version a' = aa_version a" "aa_action_info a' = aa_action_info a"
  shows "operations (sm_action_db (snd (inner_update_operation (memory_action_db decode bg fresh t) env op wid upd sm))) =
    (operations (sm_action_db sm))(op \<mapsto> increment_version (write_stage op wid (env_now env 0) s a'))"
  using update_stage_quiet [OF assms, of decode bg fresh t] update_result [OF assms(1)]
  by (simp add: update_operations [OF assms(1)] assms)

section \<open>Properties\<close>

text \<open>
  C1. In every interleaving of updates from workers, the matching engine and the client timeout, with
  clients coming and going, an operation that is finished keeps its state for good: no update in
  flight overwrites a result.
\<close>

theorem finished_is_final:
  assumes "sched_steps retries sched_new s" "operations (sch_db s) op = Some a"
    "is_finished (stage (aa_state a))" "sched_steps retries s s'" "operations (sch_db s') op = Some a'"
  shows "aa_state a' = aa_state a"
proof -
  have inv: "sched_inv retries s" using assms(1) sched_new_inv by (rule sched_steps_inv)
  then have "op \<in> sch_used s" using assms(2) by (auto simp: sched_inv_def)
  with assms(2,3) have "final_or_gone op (aa_state a) s" by (simp add: final_or_gone_def)
  from sched_steps_final [OF assms(4) inv this] assms(5) show ?thesis by (simp add: final_or_gone_def)
qed


section \<open>A schedule\<close>

text \<open>Two updates of one queued operation in flight: its result, and a disconnect that comes late.\<close>

definition demo_done :: awaited_action where
  "demo_done = write_stage (Uuid 1) (Some ''w'') 12 (Completed action_result_default) demo_action"

definition demo_late :: awaited_action where
  "demo_late = write_stage (Uuid 1) (Some ''w'') 13 Queued (demo_action\<lparr>aa_attempts := 1\<rparr>)"

definition demo_schedule :: "awaited_action_db \<Rightarrow> awaited_action set \<Rightarrow> schedule" where
  "demo_schedule db P = \<lparr>sch_db = db, sch_pending = P, sch_used = {Uuid 1}\<rparr>"

lemma demo_plans: "planned_write 3 demo_action demo_done" "planned_write 3 demo_action demo_late"
proof -
  have "plan_update 3 (Some ''w'') (UpdateWithActionStage (Completed action_result_default)) 12 demo_action =
      PlanStage demo_action (Completed action_result_default) False"
    by (simp add: plan_update_def stage_for_result_def demo_action_def is_finished_def
        action_result_default_def INTERNAL_ERROR_EXIT_CODE_def)
  then show "planned_write 3 demo_action demo_done"
    unfolding planned_write_def demo_done_def by (metis demo_action_def awaited_action.select_convs(3))
  have "plan_update 3 (Some ''w'') UpdateWithDisconnect 13 demo_action =
      PlanStage (demo_action\<lparr>aa_attempts := 1\<rparr>) Queued False"
    by (simp add: plan_update_def stage_for_disconnect_def demo_action_def is_finished_def)
  then show "planned_write 3 demo_action demo_late"
    unfolding planned_write_def demo_late_def by (metis demo_action_def awaited_action.select_convs(3))
qed

lemma demo_schedule_pending:
  "sched_steps 3 sched_new (demo_schedule demo_db {demo_done, demo_late})"
proof -
  have ops: "operations demo_db (Uuid 1) = Some demo_action" by (simp add: demo_db_sel)
  have "sched_step 3 sched_new (demo_schedule demo_db {})"
    using sched_add [of "Uuid 1" sched_new "\<lambda>_. None" None 10 "OpString ''c''" demo_info]
      demo_db_add [of "\<lambda>_. None"]
    by (simp add: sched_new_def demo_schedule_def)
  note s1 = sched_more [OF sched_refl this]
  have "sched_step 3 (demo_schedule demo_db {}) (demo_schedule demo_db {demo_late})"
    using sched_read [of "demo_schedule demo_db {}" "Uuid 1" demo_action 3 demo_late] ops demo_plans
    by (simp add: demo_schedule_def)
  note s2 = sched_more [OF s1 this]
  have "sched_step 3 (demo_schedule demo_db {demo_late}) (demo_schedule demo_db {demo_done, demo_late})"
    using sched_read [of "demo_schedule demo_db {demo_late}" "Uuid 1" demo_action 3 demo_done] ops demo_plans
    by (simp add: demo_schedule_def)
  from sched_more [OF s2 this] show ?thesis .
qed

lemma demo_done_db:
  obtains db where "update_awaited_action demo_done demo_db = (Inr (), db)"
    "operations db = [Uuid 1 \<mapsto> increment_version demo_done]"
    "update_awaited_action demo_late db =
      (Inl (make_err Aborted ''{} Expected {} but got {} for operation_id {:?} - {:?}''), db)"
proof -
  have inv: "db_inv demo_db" by (rule db_reachable_inv [OF demo_db_reachable])
  have sel: "aa_operation_id demo_done = Uuid 1" "aa_version demo_done = 0" "aa_action_info demo_done = demo_info"
    "aa_operation_id demo_late = Uuid 1" "aa_version demo_late = 0"
    by (simp_all add: demo_done_def demo_late_def demo_action_def)
  have "aa_action_info demo_action = demo_info" "aa_version demo_action = 0" by (simp_all add: demo_action_def)
  then have ok: "fst (update_awaited_action demo_done demo_db) = Inr ()"
    by (simp add: update_result [OF inv] demo_db_sel sel)
  let ?db = "snd (update_awaited_action demo_done demo_db)"
  have ops: "operations ?db = [Uuid 1 \<mapsto> increment_version demo_done]"
    by (simp add: update_operations [OF inv] ok demo_db_sel sel)
  show thesis
    by (rule that [of ?db])
      (use ok ops in \<open>simp_all add: update_awaited_action_def [of demo_late] sel prod_eq_iff\<close>)
qed

theorem finished_is_final_witness:
  "map_option aa_state (operations (snd (update_awaited_action demo_late
     (snd (update_awaited_action demo_done demo_db)))) (Uuid 1)) = Some (aa_state demo_done)"
proof (rule demo_done_db)
  fix db
  assume db: "update_awaited_action demo_done demo_db = (Inr (), db)"
    "operations db = [Uuid 1 \<mapsto> increment_version demo_done]"
    "update_awaited_action demo_late db =
      (Inl (make_err Aborted ''{} Expected {} but got {} for operation_id {:?} - {:?}''), db)"
  have ne: "demo_late \<noteq> demo_done" by (simp add: demo_late_def demo_done_def write_stage_def worker_set_state_def
      set_worker_id_def worker_keep_alive_def demo_action_def)
  have v: "aa_version demo_done = 0" "aa_version demo_late = 0"
    by (simp_all add: demo_done_def demo_late_def demo_action_def)
  have "sched_step 3 (demo_schedule demo_db {demo_done, demo_late}) (demo_schedule db {demo_late})"
    using sched_write [of demo_done "demo_schedule demo_db {demo_done, demo_late}" "Inr ()" db 3] db(1) ne v
    by (simp add: demo_schedule_def insert_Diff_if)
  note s1 = sched_more [OF demo_schedule_pending this]
  have "sched_step 3 (demo_schedule db {demo_late}) (demo_schedule db {})"
    using sched_write [of demo_late "demo_schedule db {demo_late}" _ db 3, OF _ _ _ ] db(3) v
    by (simp add: demo_schedule_def)
  note s2 = sched_more [OF sched_refl this]
  have fin: "is_finished (stage (aa_state (increment_version demo_done)))"
    by (simp add: demo_done_def is_finished_def)
  have "aa_state (increment_version demo_done) = aa_state (increment_version demo_done)"
    by (rule finished_is_final [OF s1 _ fin s2]) (simp_all add: demo_schedule_def db(2))
  with db show ?thesis by simp
qed


text \<open>
  C22. A worker that disconnects, undisturbed, costs its unfinished operation one attempt: within the
  retries the operation is queued again, without a worker and at its old place in the order;
  otherwise it is completed with an error. The database invariant is kept.
\<close>

theorem disconnect_outcome:
  assumes "db_inv (sm_action_db sm)" "env_db env 0 = (\<lambda>db. db)" "operations (sm_action_db sm) op = Some a"
    "\<not> is_finished (stage (aa_state a))" "aa_worker_id a = None \<or> aa_worker_id a = Some w"
  shows "\<exists>a' sm'. update_operation (memory_action_db decode bg fresh t) env op w UpdateWithDisconnect sm = (Inr (), sm') \<and>
    db_inv (sm_action_db sm') \<and> operations (sm_action_db sm') = (operations (sm_action_db sm))(op \<mapsto> a') \<and>
    aa_attempts a' = aa_attempts a + 1 \<and> aa_sort_key a' = aa_sort_key a \<and>
    (if aa_attempts a + 1 \<le> max_job_retries sm
     then stage (aa_state a') = Queued \<and> aa_worker_id a' = None
     else (\<exists>r e. stage (aa_state a') = Completed r \<and> ar_error r = Some e \<and> err_code e = Internal))"
proof -
  have id: "aa_operation_id a = op" using assms(1,3) by (auto simp: db_inv_def index_inv_def ids_ok_def)
  obtain a1 s where d: "stage_for_disconnect (max_job_retries sm) (Some w) a = (a1, s)" by force
  have plan: "plan_update (max_job_retries sm) (Some w) UpdateWithDisconnect (env_now env 0) a = PlanStage a1 s False"
    using assms(4,5) d by (auto simp: plan_update_def)
  have a1: "aa_operation_id a1 = op" "aa_version a1 = aa_version a" "aa_action_info a1 = aa_action_info a"
    "aa_attempts a1 = aa_attempts a + 1" "aa_sort_key a1 = aa_sort_key a"
    using d id by (auto simp: stage_for_disconnect_def Let_def split: if_splits)
  let ?w = "write_stage op (Some w) (env_now env 0) s a1"
  let ?sm = "snd (update_operation (memory_action_db decode bg fresh t) env op w UpdateWithDisconnect sm)"
  note quiet = update_stage_quiet [OF assms(1-3) plan a1(1-3), of decode bg fresh t, folded update_operation_def]
  note ops = update_stage_operations [OF assms(1-3) plan a1(1-3), of decode bg fresh t, folded update_operation_def]
  have "update_ok a ?w" using assms(4) a1(5) by (simp add: update_ok_def)
  then have "db_inv (sm_action_db ?sm)"
    using quiet assms(1,3) a1(1) by (auto intro: update_inv)
  moreover have "if aa_attempts a + 1 \<le> max_job_retries sm then s = Queued
      else \<exists>r e. s = Completed r \<and> ar_error r = Some e \<and> err_code e = Internal"
    using d by (auto simp: stage_for_disconnect_def too_many_attempts_error_def Let_def split: if_splits)
  ultimately show ?thesis
    using quiet ops a1
    by (intro exI [of _ "increment_version ?w"] exI [of _ ?sm])
      (auto simp: prod_eq_iff increment_version_def split: if_splits)
qed

definition demo_sm :: "awaited_action_db state_manager" where
  "demo_sm = \<lparr>sm_action_db = demo_db, max_job_retries = 3, no_event_action_timeout = 5,
     client_action_timeout = 60, max_executing_timeout = 20, sm_worker_registry = None\<rparr>"

definition demo_env :: "awaited_action_db environment" where
  "demo_env = \<lparr>env_db = (\<lambda>_ db. db), env_now = (\<lambda>_. 20), env_instant = (\<lambda>_. 20)\<rparr>"

lemma demo_sm_hyps:
  "db_inv (sm_action_db demo_sm)" "env_db demo_env 0 = (\<lambda>db. db)"
  "operations (sm_action_db demo_sm) (Uuid 1) = Some demo_action" "max_job_retries demo_sm = 3"
  using db_reachable_inv [OF demo_db_reachable] by (simp_all add: demo_sm_def demo_env_def demo_db_sel)

lemma demo_action_sel:
  "stage (aa_state demo_action) = Queued" "aa_worker_id demo_action = None" "aa_attempts demo_action = 0"
  "aa_operation_id demo_action = Uuid 1" "aa_last_client_keepalive demo_action = 10"
  by (simp_all add: demo_action_def)

theorem disconnect_outcome_witness:
  "\<exists>a' sm'. update_operation mem_ops demo_env (Uuid 1) ''w'' UpdateWithDisconnect demo_sm = (Inr (), sm') \<and>
    operations (sm_action_db sm') (Uuid 1) = Some a' \<and> aa_attempts a' = 1 \<and> stage (aa_state a') = Queued"
proof -
  have "\<not> is_finished (stage (aa_state demo_action))"
    "aa_worker_id demo_action = None \<or> aa_worker_id demo_action = Some ''w''"
    by (simp_all add: demo_action_sel is_finished_def)
  from disconnect_outcome [OF demo_sm_hyps(1-3) this, of "\<lambda>_. None" None "Uuid 0" 0]
  show ?thesis by (auto simp: demo_action_sel demo_sm_hyps)
qed

text \<open>
  C24. A kill (exit code 9) reported for an operation that is already back in the queue raises the
  priority of its action without moving its entry in the sorted set. The report is accepted, and from
  then on the operation cannot be assigned to any worker: every assignment fails as out of sync.
\<close>

theorem kill_of_queued_operation_blocks_it:
  assumes "db_inv (sm_action_db sm)" "env_db env 0 = (\<lambda>db. db)" "operations (sm_action_db sm) op = Some a"
    "stage (aa_state a) = Queued" "aa_worker_id a = None" "exit_code r = 9"
    "aa_attempts a < max_job_retries sm" "aa_sort_key a \<noteq> sort_key_new 0x7FFFFFFF 0"
  shows "\<exists>sm'. update_operation (memory_action_db decode bg fresh t) env op w (UpdateWithActionStage (Completed r)) sm =
      (Inr (), sm') \<and>
    (\<forall>w'. \<exists>e. assign_operation (memory_action_db decode bg fresh t) env op (Inr w') sm' = (Inl e, sm') \<and>
      err_code e = Internal)"
proof -
  let ?db = "sm_action_db sm" and ?ops = "memory_action_db decode bg fresh t"
  have id: "aa_operation_id a = op" using assms(1,3) by (auto simp: db_inv_def index_inv_def ids_ok_def)
  let ?b = "boost_priority (a\<lparr>aa_attempts := aa_attempts a + 1\<rparr>)"
  let ?w = "increment_version (write_stage op (Some w) (env_now env 0) Queued ?b)"
  let ?sm = "snd (update_operation ?ops env op w (UpdateWithActionStage (Completed r)) sm)"
  have plan: "plan_update (max_job_retries sm) (Some w) (UpdateWithActionStage (Completed r)) (env_now env 0) a =
      PlanStage ?b Queued True"
    using assms(4-7) by (simp add: plan_update_def stage_for_result_def is_finished_def)
  have b: "aa_operation_id ?b = op" "aa_version ?b = aa_version a" "aa_action_info ?b = aa_action_info a"
    by (simp_all add: boost_priority_def id)
  note quiet = update_stage_quiet [OF assms(1-3) plan b, of decode bg fresh t, folded update_operation_def]
  have db: "sm_action_db ?sm = ?db\<lparr>operations := (operations ?db)(op \<mapsto> ?w)\<rparr>"
    using quiet assms(3,4) b by (simp add: update_awaited_action_def)
  have "sorted_from ?w \<notin> queued (sorted_actions ?db)"
  proof
    assume "sorted_from ?w \<in> queued (sorted_actions ?db)"
    then have "sorted_from ?w \<in> bucket_set (operations ?db) 2"
      using assms(1) by (auto simp: db_inv_def index_inv_def dest!: spec [of _ Queued])
    then obtain op' a' where a': "operations ?db op' = Some a'" "sorted_from ?w = sorted_from a'"
      by (rule bucket_setE)
    then have "aa_operation_id a' = op" by (metis sorted_from_sel(2) increment_version_sel(1) write_stage_sel(1) b(1))
    with a'(1) assms(1) have "op' = op" by (auto simp: db_inv_def index_inv_def ids_ok_def)
    with a' assms(3) have "aa_sort_key a = aa_sort_key ?w" by (metis sorted_from_sel(1) option.inject)
    with assms(8) show False by (simp add: boost_priority_def)
  qed
  note lost = this
  have "\<exists>e. assign_operation ?ops env op (Inr w') ?sm = (Inl e, ?sm) \<and> err_code e = Internal" for w'
  proof -
    let ?x = "write_stage op (Some w') (env_now env 0) Executing ?w"
    have ops: "operations (sm_action_db ?sm) op = Some ?w" by (simp add: db)
    have "plan_update n (Some w') (UpdateWithActionStage Executing) (env_now env 0) ?w = PlanStage ?w Executing False" for n
      by (simp add: plan_update_def stage_for_result_def is_finished_def increment_version_def)
    moreover have "update_awaited_action ?x (sm_action_db ?sm) = (Inl (make_err Internal
        ''sorted_action_info_hash_keys and action_info_hash_key_to_awaited_action are out of sync - {} - {:?}''),
        sm_action_db ?sm)"
      using lost b(1)
      by (simp add: update_awaited_action_def ops process_state_changes_def db sorted_from_def increment_version_def)
    ultimately show ?thesis
      by (simp add: assign_operation_def inner_update_operation_def MAX_UPDATE_RETRIES_def numeral_eq_Suc
          update_attempt_def ops write_back_def assms(2) record_kill_def err_tip_def)
  qed
  with quiet show ?thesis by (intro exI [of _ ?sm]) (simp add: prod_eq_iff)
qed

theorem kill_of_queued_operation_blocks_it_witness:
  "\<exists>sm' e. update_operation mem_ops demo_env (Uuid 1) ''w''
      (UpdateWithActionStage (Completed (action_result_default\<lparr>exit_code := 9\<rparr>))) demo_sm = (Inr (), sm') \<and>
    assign_operation mem_ops demo_env (Uuid 1) (Inr ''v'') sm' = (Inl e, sm') \<and> err_code e = Internal"
proof -
  have "aa_sort_key demo_action \<noteq> sort_key_new 0x7FFFFFFF 0"
    by (simp add: demo_action_def sort_key_new_def sort_key_new_with_criticality_def)
  then show ?thesis
    using kill_of_queued_operation_blocks_it [OF demo_sm_hyps(1-3), of "action_result_default\<lparr>exit_code := 9\<rparr>"
        "\<lambda>_. None" None "Uuid 0" 0 "''w''"]
    by (simp add: demo_action_sel demo_sm_hyps) blast
qed





section \<open>Listing\<close>








end
