(* ===== verification/Blob_Locality.thy ===== *)
theory Blob_Locality
  imports Digest "HOL-Library.Multiset"
begin

text \<open>
  \<^verbatim>\<open>nativelink-util/src/blob_locality_map.rs\<close>: which worker endpoints hold which blobs, in both
  directions, with the stamped (last writer wins) deltas of the workers and the persisted form. The
  lemmas show that the two directions agree, that the map implements a relation between endpoints and
  digests, and that a blob a worker holds is not lost to deltas that arrive out of order. Logging is
  left out; a \<^verbatim>\<open>HashMap\<close> is a map and a \<^verbatim>\<open>HashSet\<close> a set.
\<close>

section \<open>Stamps\<close>

record stamp =
  boot_epoch :: u64
  counter :: u64

definition stamp_default :: stamp where
  "stamp_default = \<lparr>boot_epoch = 0, counter = 0\<rparr>"

definition stamp_gt :: "stamp \<Rightarrow> stamp \<Rightarrow> bool" where
  "stamp_gt s t \<longleftrightarrow>
     boot_epoch t < boot_epoch s \<or> boot_epoch s = boot_epoch t \<and> counter t < counter s"

definition stamp_eq_ts :: "stamp \<Rightarrow> stamp \<Rightarrow> bool" where
  "stamp_eq_ts s t \<longleftrightarrow> boot_epoch s = boot_epoch t \<and> counter s = counter t"

section \<open>Endpoint lists\<close>

type_synonym endpoint = string
type_synonym endpoint_list = "(endpoint \<times> stamp) list"

fun insert_stamped :: "endpoint \<Rightarrow> stamp \<Rightarrow> endpoint_list \<Rightarrow> bool \<times> endpoint_list" where
  "insert_stamped ep s [] = (True, [(ep, s)])"
| "insert_stamped ep s (x # xs) =
     (if fst x = ep then (False, (fst x, s) # xs)
      else case insert_stamped ep s xs of (new, ys) \<Rightarrow> (new, x # ys))"

fun register_gated :: "endpoint \<Rightarrow> stamp \<Rightarrow> endpoint_list \<Rightarrow> bool \<times> endpoint_list" where
  "register_gated ep s [] = (True, [(ep, s)])"
| "register_gated ep s (x # xs) =
     (if fst x = ep then (False, (fst x, if stamp_gt s (snd x) then s else snd x) # xs)
      else case register_gated ep s xs of (new, ys) \<Rightarrow> (new, x # ys))"

text \<open>\<^verbatim>\<open>Vec::swap_remove\<close>: the last element takes the place of the removed one.\<close>

definition swap_remove :: "nat \<Rightarrow> 'a list \<Rightarrow> 'a list" where
  "swap_remove i xs = (if i = length xs - 1 then butlast xs else (butlast xs)[i := last xs])"

fun position :: "('a \<Rightarrow> bool) \<Rightarrow> 'a list \<Rightarrow> nat option" where
  "position P [] = None"
| "position P (x # xs) = (if P x then Some 0 else map_option Suc (position P xs))"

definition endpoint_remove :: "endpoint \<Rightarrow> endpoint_list \<Rightarrow> bool \<times> endpoint_list" where
  "endpoint_remove ep xs =
     (case position (\<lambda>x. fst x = ep) xs of
        None \<Rightarrow> (False, xs)
      | Some i \<Rightarrow> (True, swap_remove i xs))"

definition evict_gated :: "endpoint \<Rightarrow> stamp \<Rightarrow> endpoint_list \<Rightarrow> bool \<times> endpoint_list" where
  "evict_gated ep s xs =
     (case position (\<lambda>x. fst x = ep) xs of
        None \<Rightarrow> (False, xs)
      | Some i \<Rightarrow>
          if stamp_gt s (snd (xs ! i)) \<or> stamp_eq_ts s (snd (xs ! i)) then (True, swap_remove i xs)
          else (False, xs))"

section \<open>The map\<close>

record blob_locality_map =
  bl_blobs :: "digest_info \<rightharpoonup> endpoint_list"
  endpoint_blobs :: "endpoint \<rightharpoonup> digest_info set"

definition locality_new :: blob_locality_map where
  "locality_new = \<lparr>bl_blobs = Map.empty, endpoint_blobs = Map.empty\<rparr>"

definition list_of :: "blob_locality_map \<Rightarrow> digest_info \<Rightarrow> endpoint_list" where
  "list_of m d = (case bl_blobs m d of None \<Rightarrow> [] | Some l \<Rightarrow> l)"

definition digests_of :: "blob_locality_map \<Rightarrow> endpoint \<Rightarrow> digest_info set" where
  "digests_of m ep = (case endpoint_blobs m ep of None \<Rightarrow> {} | Some s \<Rightarrow> s)"

definition register_one :: "endpoint \<Rightarrow> digest_info \<Rightarrow> blob_locality_map \<Rightarrow> blob_locality_map" where
  "register_one ep d m =
     m\<lparr>endpoint_blobs := (endpoint_blobs m)(ep \<mapsto> insert d (digests_of m ep)),
       bl_blobs := (bl_blobs m)(d \<mapsto> snd (insert_stamped ep stamp_default (list_of m d)))\<rparr>"

definition register_blobs :: "endpoint \<Rightarrow> digest_info list \<Rightarrow> blob_locality_map \<Rightarrow> blob_locality_map" where
  "register_blobs ep ds m =
     fold (register_one ep) ds (m\<lparr>endpoint_blobs := (endpoint_blobs m)(ep \<mapsto> digests_of m ep)\<rparr>)"

definition register_gated_one :: "endpoint \<Rightarrow> digest_info \<times> stamp \<Rightarrow> blob_locality_map \<Rightarrow> blob_locality_map" where
  "register_gated_one ep x m =
     m\<lparr>endpoint_blobs := (endpoint_blobs m)(ep \<mapsto> insert (fst x) (digests_of m ep)),
       bl_blobs := (bl_blobs m)(fst x \<mapsto> snd (register_gated ep (snd x) (list_of m (fst x))))\<rparr>"

definition register_blobs_gated :: "endpoint \<Rightarrow> (digest_info \<times> stamp) list \<Rightarrow> blob_locality_map \<Rightarrow> blob_locality_map" where
  "register_blobs_gated ep ds m =
     (if ds = [] then m
      else fold (register_gated_one ep) ds (m\<lparr>endpoint_blobs := (endpoint_blobs m)(ep \<mapsto> digests_of m ep)\<rparr>))"

text \<open>A digest whose list becomes empty is removed.\<close>

definition set_list :: "digest_info \<Rightarrow> endpoint_list \<Rightarrow> blob_locality_map \<Rightarrow> blob_locality_map" where
  "set_list d l m = m\<lparr>bl_blobs := (bl_blobs m)(d := (if l = [] then None else Some l))\<rparr>"

definition forget_digest :: "endpoint \<Rightarrow> digest_info \<Rightarrow> blob_locality_map \<Rightarrow> blob_locality_map" where
  "forget_digest ep d m = m\<lparr>endpoint_blobs := (endpoint_blobs m)(ep \<mapsto> digests_of m ep - {d})\<rparr>"

definition evict_one :: "endpoint \<Rightarrow> digest_info \<Rightarrow> blob_locality_map \<Rightarrow> blob_locality_map" where
  "evict_one ep d m =
     (let m = forget_digest ep d m
      in case bl_blobs m d of
           None \<Rightarrow> m
         | Some l \<Rightarrow> set_list d (snd (endpoint_remove ep l)) m)"

definition drop_if_empty :: "endpoint \<Rightarrow> blob_locality_map \<Rightarrow> blob_locality_map" where
  "drop_if_empty ep m =
     (if digests_of m ep = {} then m\<lparr>endpoint_blobs := (endpoint_blobs m)(ep := None)\<rparr> else m)"

definition evict_blobs :: "endpoint \<Rightarrow> digest_info list \<Rightarrow> blob_locality_map \<Rightarrow> blob_locality_map" where
  "evict_blobs ep ds m =
     (case endpoint_blobs m ep of
        None \<Rightarrow> m
      | Some _ \<Rightarrow> drop_if_empty ep (fold (evict_one ep) ds m))"

definition evict_gated_one :: "endpoint \<Rightarrow> digest_info \<times> stamp \<Rightarrow> blob_locality_map \<Rightarrow> blob_locality_map" where
  "evict_gated_one ep x m =
     (case bl_blobs m (fst x) of
        None \<Rightarrow> m
      | Some l \<Rightarrow>
          (case evict_gated ep (snd x) l of
             (True, l) \<Rightarrow> set_list (fst x) l (forget_digest ep (fst x) m)
           | (False, _) \<Rightarrow> m))"

definition evict_blobs_gated :: "endpoint \<Rightarrow> (digest_info \<times> stamp) list \<Rightarrow> blob_locality_map \<Rightarrow> blob_locality_map" where
  "evict_blobs_gated ep ds m =
     (case endpoint_blobs m ep of
        None \<Rightarrow> m
      | Some _ \<Rightarrow> drop_if_empty ep (fold (evict_gated_one ep) ds m))"

text \<open>
  The digests of a departed endpoint are visited in an arbitrary order; each visit touches only its
  own digest, so all of them happen at once.
\<close>

definition remove_endpoint :: "endpoint \<Rightarrow> blob_locality_map \<Rightarrow> blob_locality_map" where
  "remove_endpoint ep m =
     (case endpoint_blobs m ep of
        None \<Rightarrow> m
      | Some ds \<Rightarrow>
          m\<lparr>endpoint_blobs := (endpoint_blobs m)(ep := None),
            bl_blobs := (\<lambda>d. if d \<in> ds
              then (case bl_blobs m d of
                      None \<Rightarrow> None
                    | Some l \<Rightarrow> (let l' = snd (endpoint_remove ep l) in if l' = [] then None else Some l'))
              else bl_blobs m d)\<rparr>)"

definition has_digest :: "digest_info \<Rightarrow> blob_locality_map \<Rightarrow> bool" where
  "has_digest d m = (case bl_blobs m d of None \<Rightarrow> False | Some l \<Rightarrow> l \<noteq> [])"

definition lookup_workers :: "digest_info \<Rightarrow> blob_locality_map \<Rightarrow> endpoint list" where
  "lookup_workers d m = (case bl_blobs m d of None \<Rightarrow> [] | Some l \<Rightarrow> map fst l)"

definition lookup_many :: "digest_info list \<Rightarrow> blob_locality_map \<Rightarrow> endpoint list list" where
  "lookup_many ds m = map (\<lambda>d. case bl_blobs m d of Some l \<Rightarrow> map fst l | None \<Rightarrow> []) ds"

definition all_endpoints :: "blob_locality_map \<Rightarrow> endpoint set" where
  "all_endpoints m = dom (endpoint_blobs m)"

section \<open>The persisted form\<close>

definition PERSIST_MAGIC :: u32 where
  "PERSIST_MAGIC = 0x4E4C4C4D"

definition PERSIST_VERSION :: "16 word" where
  "PERSIST_VERSION = 1"

definition PERSIST_HEADER_LEN :: nat where
  "PERSIST_HEADER_LEN = 6"

record persisted_endpoint =
  pe_cas_endpoint :: string
  pe_boot_epoch :: u64
  pe_digests :: "digest_info list"

record persisted_locality_map =
  persisted_at_unix_s :: u64
  plm_entries :: "persisted_endpoint list"

text \<open>
  \<^verbatim>\<open>bincode\<close> encodes a value or fails, and decodes a slice (within the limit of the configuration) or
  fails.
\<close>

record bincode =
  bincode_encode :: "persisted_locality_map \<Rightarrow> bytes option"
  bincode_decode :: "bytes \<Rightarrow> persisted_locality_map option"

fun le_bytes :: "nat \<Rightarrow> nat \<Rightarrow> bytes" where
  "le_bytes 0 n = []"
| "le_bytes (Suc k) n = of_nat n # le_bytes k (n div 256)"

fun from_le_bytes :: "bytes \<Rightarrow> nat" where
  "from_le_bytes [] = 0"
| "from_le_bytes (b # bs) = unat b + 256 * from_le_bytes bs"

definition serialize_to_bytes :: "bincode \<Rightarrow> persisted_locality_map \<Rightarrow> bytes result" where
  "serialize_to_bytes bc p =
     (case bincode_encode bc p of
        None \<Rightarrow> Inl (make_input_err ''failed to bincode-encode locality persist map: {e}'')
      | Some body \<Rightarrow> Inr (le_bytes 4 (unat PERSIST_MAGIC) @ le_bytes 2 (unat PERSIST_VERSION) @ body))"

definition deserialize_from_bytes :: "bincode \<Rightarrow> bytes \<Rightarrow> persisted_locality_map result" where
  "deserialize_from_bytes bc bs =
     (if length bs < PERSIST_HEADER_LEN
      then Inl (make_input_err ''locality persist file too short ({} bytes, need >= {} for the magic+version frame); ignoring'')
      else if (of_nat (from_le_bytes (take 4 bs)) :: u32) \<noteq> PERSIST_MAGIC
      then Inl (make_input_err ''locality persist file has bad magic 0x{magic:08X} (expected 0x{PERSIST_MAGIC:08X}); ignoring'')
      else if (of_nat (from_le_bytes (take 2 (drop 4 bs))) :: 16 word) \<noteq> PERSIST_VERSION
      then Inl (make_input_err ''locality persist file version mismatch {version} (expected {PERSIST_VERSION}); ignoring'')
      else case bincode_decode bc (drop PERSIST_HEADER_LEN bs) of
             None \<Rightarrow> Inl (make_input_err ''failed to bincode-decode locality persist map payload: {e}'')
           | Some p \<Rightarrow> Inr p)"

section \<open>Endpoint lists as maps\<close>

lemma position_Some: "position P xs = Some i \<Longrightarrow> i < length xs \<and> P (xs ! i)"
  by (induction xs arbitrary: i) (auto split: if_splits)

lemma position_None: "position P xs = None \<longleftrightarrow> (\<forall>x\<in>set xs. \<not> P x)"
  by (induction xs) auto

lemma swap_remove_mset: "i < length xs \<Longrightarrow> mset (xs ! i # swap_remove i xs) = mset xs"
proof (cases xs rule: rev_cases)
  case (snoc ys z)
  assume "i < length xs"
  with snoc show ?thesis
    by (auto simp: swap_remove_def nth_append mset_update)
qed simp

lemma swap_remove_at:
  assumes "distinct (map fst xs)" "i < length xs" "fst (xs ! i) = k"
  shows "distinct (map fst (swap_remove i xs))" "map_of (swap_remove i xs) = (map_of xs)(k := None)"
proof -
  have perm: "mset (xs ! i # swap_remove i xs) = mset xs" using assms(2) by (rule swap_remove_mset)
  from arg_cong [OF this, of "image_mset fst"] have "mset (map fst (xs ! i # swap_remove i xs)) = mset (map fst xs)"
    by simp
  with assms(1) have dist: "distinct (map fst (xs ! i # swap_remove i xs))"
    using mset_eq_imp_distinct_iff by blast
  then show "distinct (map fst (swap_remove i xs))" by simp
  from mset_eq_setD [OF perm] have "map_of (xs ! i # swap_remove i xs) = map_of xs"
    using dist assms(1) by (simp only: map_of_inject_set)
  with dist assms(3) show "map_of (swap_remove i xs) = (map_of xs)(k := None)"
    by (cases "xs ! i") (auto simp: fun_eq_iff map_of_eq_None_iff image_iff, metis)
qed

lemma insert_stamped_keys: "fst ` set (snd (insert_stamped ep s xs)) = insert ep (fst ` set xs)"
  by (induction xs) (simp_all add: insert_commute insert_absorb2 case_prod_beta)

lemma register_gated_keys: "fst ` set (snd (register_gated ep s xs)) = insert ep (fst ` set xs)"
  by (induction xs) (simp_all add: insert_commute insert_absorb2 case_prod_beta)

lemma insert_stamped_spec:
  "insert_stamped ep s xs = (new, ys) \<Longrightarrow> distinct (map fst xs) \<Longrightarrow>
    map_of ys = (map_of xs)(ep \<mapsto> s) \<and> distinct (map fst ys) \<and> ys \<noteq> []"
proof (induction xs arbitrary: new ys)
  case (Cons x xs)
  show ?case
  proof (cases "fst x = ep")
    case False
    then obtain zs where zs: "insert_stamped ep s xs = (new, zs)" "ys = x # zs"
      using Cons.prems by (auto split: prod.splits)
    moreover have "fst x \<notin> fst ` set zs"
      using Cons.prems False insert_stamped_keys [of ep s xs] by (simp add: zs(1))
    ultimately show ?thesis using Cons False by (auto simp: fun_upd_twist)
  qed (use Cons in auto)
qed auto

definition latest :: "stamp \<Rightarrow> stamp option \<Rightarrow> stamp" where
  "latest s old = (case old of None \<Rightarrow> s | Some t \<Rightarrow> if stamp_gt s t then s else t)"

lemma register_gated_spec:
  "register_gated ep s xs = (new, ys) \<Longrightarrow> distinct (map fst xs) \<Longrightarrow>
    map_of ys = (map_of xs)(ep \<mapsto> latest s (map_of xs ep)) \<and> distinct (map fst ys) \<and> ys \<noteq> []"
proof (induction xs arbitrary: new ys)
  case (Cons x xs)
  show ?case
  proof (cases "fst x = ep")
    case False
    then obtain zs where zs: "register_gated ep s xs = (new, zs)" "ys = x # zs"
      using Cons.prems by (auto split: prod.splits)
    moreover have "fst x \<notin> fst ` set zs"
      using Cons.prems False register_gated_keys [of ep s xs] by (simp add: zs(1))
    ultimately show ?thesis using Cons False by (auto simp: fun_upd_twist)
  qed (use Cons in \<open>auto simp: latest_def\<close>)
qed (auto simp: latest_def)

lemma endpoint_remove_spec:
  assumes "distinct (map fst xs)"
  shows "map_of (snd (endpoint_remove ep xs)) = (map_of xs)(ep := None) \<and>
    distinct (map fst (snd (endpoint_remove ep xs)))"
proof (cases "position (\<lambda>x. fst x = ep) xs")
  case None
  then have "map_of xs ep = None" by (auto simp: position_None map_of_eq_None_iff)
  with None assms show ?thesis by (auto simp: endpoint_remove_def)
next
  case (Some i)
  with position_Some [OF this] swap_remove_at [OF assms, of i ep] show ?thesis
    by (simp add: endpoint_remove_def)
qed

definition evicts :: "stamp \<Rightarrow> stamp option \<Rightarrow> bool" where
  "evicts s old = (case old of None \<Rightarrow> False | Some t \<Rightarrow> stamp_gt s t \<or> stamp_eq_ts s t)"

lemma evict_gated_spec:
  assumes "distinct (map fst xs)"
  shows "evict_gated ep s xs = (if evicts s (map_of xs ep) then (True, snd (endpoint_remove ep xs)) else (False, xs))"
proof (cases "position (\<lambda>x. fst x = ep) xs")
  case None
  then have "map_of xs ep = None" by (auto simp: position_None map_of_eq_None_iff)
  with None show ?thesis by (simp add: evict_gated_def evicts_def)
next
  case (Some i)
  from position_Some [OF this] have i: "i < length xs" "fst (xs ! i) = ep" by auto
  then have "map_of xs ep = Some (snd (xs ! i))" using assms by (metis map_of_is_SomeI nth_mem prod.collapse)
  with Some show ?thesis by (simp add: evict_gated_def evicts_def endpoint_remove_def)
qed

section \<open>The map as stamped residency\<close>

text \<open>The abstraction of the map: the stamp of every endpoint that holds a digest.\<close>

definition residency :: "blob_locality_map \<Rightarrow> digest_info \<Rightarrow> endpoint \<Rightarrow> stamp option" where
  "residency m d = map_of (list_of m d)"

definition locality_inv :: "blob_locality_map \<Rightarrow> bool" where
  "locality_inv m \<longleftrightarrow>
     (\<forall>d l. bl_blobs m d = Some l \<longrightarrow> l \<noteq> [] \<and> distinct (map fst l)) \<and>
     (\<forall>ep d. d \<in> digests_of m ep \<longleftrightarrow> residency m d ep \<noteq> None)"

lemma locality_inv_lists: "locality_inv m \<Longrightarrow> distinct (map fst (list_of m d))"
  by (auto simp: locality_inv_def list_of_def split: option.splits)

lemma locality_new_inv: "locality_inv locality_new"
  by (simp add: locality_inv_def locality_new_def digests_of_def residency_def list_of_def)

lemma residency_upd:
  "bl_blobs m' = (bl_blobs m)(d := x) \<Longrightarrow>
    residency m' = (residency m)(d := (case x of None \<Rightarrow> Map.empty | Some l \<Rightarrow> map_of l))"
  by (auto simp: residency_def list_of_def fun_eq_iff split: option.splits)

lemma digests_of_sel [simp]:
  "digests_of (m\<lparr>bl_blobs := b\<rparr>) = digests_of m"
  "digests_of (m\<lparr>endpoint_blobs := (endpoint_blobs m)(ep \<mapsto> s)\<rparr>) = (digests_of m)(ep := s)"
  "digests_of (m\<lparr>endpoint_blobs := (endpoint_blobs m)(ep := None)\<rparr>) = (digests_of m)(ep := {})"
  by (auto simp: digests_of_def fun_eq_iff)

lemma register_one_residency:
  assumes "locality_inv m"
  shows "locality_inv (register_one ep d m)"
    "residency (register_one ep d m) = (residency m)(d := (residency m d)(ep \<mapsto> stamp_default))"
proof -
  obtain new ys where ys: "insert_stamped ep stamp_default (list_of m d) = (new, ys)" by force
  note spec = insert_stamped_spec [OF this locality_inv_lists [OF assms]]
  show res: "residency (register_one ep d m) = (residency m)(d := (residency m d)(ep \<mapsto> stamp_default))"
    using spec residency_upd [of "register_one ep d m" m d "Some ys"]
    by (simp add: register_one_def ys residency_def [of m d])
  have "digests_of (register_one ep d m) = (digests_of m)(ep := insert d (digests_of m ep))"
    by (simp add: register_one_def)
  with assms res spec show "locality_inv (register_one ep d m)"
    by (auto simp: locality_inv_def register_one_def ys)
qed

lemma register_gated_one_residency:
  assumes "locality_inv m"
  shows "locality_inv (register_gated_one ep (d, s) m)"
    "residency (register_gated_one ep (d, s) m) =
      (residency m)(d := (residency m d)(ep \<mapsto> latest s (residency m d ep)))"
proof -
  obtain new ys where ys: "register_gated ep s (list_of m d) = (new, ys)" by force
  note spec = register_gated_spec [OF this locality_inv_lists [OF assms]]
  show res: "residency (register_gated_one ep (d, s) m) =
      (residency m)(d := (residency m d)(ep \<mapsto> latest s (residency m d ep)))"
    using spec residency_upd [of "register_gated_one ep (d, s) m" m d "Some ys"]
    by (simp add: register_gated_one_def ys residency_def [of m d])
  have "digests_of (register_gated_one ep (d, s) m) = (digests_of m)(ep := insert d (digests_of m ep))"
    by (simp add: register_gated_one_def)
  with assms res spec show "locality_inv (register_gated_one ep (d, s) m)"
    by (auto simp: locality_inv_def register_gated_one_def ys)
qed

lemma set_list_residency:
  "distinct (map fst l) \<Longrightarrow> residency (set_list d l m) = (residency m)(d := map_of l)"
  using residency_upd [of "set_list d l m" m d "if l = [] then None else Some l"] by (auto simp: set_list_def)

lemma bl_blobs_forget [simp]: "bl_blobs (forget_digest ep d m) = bl_blobs m"
  by (simp add: forget_digest_def)

lemma residency_cong: "bl_blobs m' = bl_blobs m \<Longrightarrow> residency m' = residency m"
  by (simp add: residency_def list_of_def fun_eq_iff)

text \<open>Taking an endpoint off the list of a digest, in both directions.\<close>

lemma take_off:
  assumes "locality_inv m" "bl_blobs m d = Some l"
  shows "locality_inv (set_list d (snd (endpoint_remove ep l)) (forget_digest ep d m))"
    "residency (set_list d (snd (endpoint_remove ep l)) (forget_digest ep d m)) =
      (residency m)(d := (residency m d)(ep := None))"
proof -
  have l: "distinct (map fst l)" "residency m d = map_of l"
    using assms by (auto simp: locality_inv_def residency_def list_of_def)
  note spec = endpoint_remove_spec [OF l(1), of ep]
  let ?m = "set_list d (snd (endpoint_remove ep l)) (forget_digest ep d m)"
  show res: "residency ?m = (residency m)(d := (residency m d)(ep := None))"
    using spec l(2) set_list_residency [of "snd (endpoint_remove ep l)" d "forget_digest ep d m"]
    by (simp add: residency_cong [of "forget_digest ep d m" m])
  have "digests_of ?m = (digests_of m)(ep := digests_of m ep - {d})"
    by (simp add: set_list_def forget_digest_def)
  with assms res spec show "locality_inv ?m"
    by (auto simp: locality_inv_def set_list_def split: if_splits)
qed

lemma evict_one_residency:
  assumes "locality_inv m" "endpoint_blobs m ep \<noteq> None"
  shows "locality_inv (evict_one ep d m)" "endpoint_blobs (evict_one ep d m) ep \<noteq> None"
    "residency (evict_one ep d m) = (residency m)(d := (residency m d)(ep := None))"
proof -
  show "endpoint_blobs (evict_one ep d m) ep \<noteq> None"
    by (auto simp: evict_one_def forget_digest_def set_list_def Let_def split: option.split)
  have "locality_inv (evict_one ep d m) \<and>
    residency (evict_one ep d m) = (residency m)(d := (residency m d)(ep := None))"
  proof (cases "bl_blobs m d")
    case None
    then have none: "residency m d = Map.empty" by (simp add: residency_def list_of_def)
    with assms(1) have "d \<notin> digests_of m ep" by (auto simp: locality_inv_def)
    then have "digests_of (forget_digest ep d m) = digests_of m" by (auto simp: forget_digest_def)
    with None none assms(1) show ?thesis
      by (auto simp: evict_one_def Let_def locality_inv_def residency_cong [of "forget_digest ep d m" m])
  next
    case (Some l)
    with take_off [OF assms(1) this, of ep] show ?thesis by (simp add: evict_one_def)
  qed
  then show "locality_inv (evict_one ep d m)"
    "residency (evict_one ep d m) = (residency m)(d := (residency m d)(ep := None))" by simp_all
qed

lemma evict_gated_one_residency:
  assumes "locality_inv m" "endpoint_blobs m ep \<noteq> None"
  shows "locality_inv (evict_gated_one ep (d, s) m)" "endpoint_blobs (evict_gated_one ep (d, s) m) ep \<noteq> None"
    "residency (evict_gated_one ep (d, s) m) =
      (if evicts s (residency m d ep) then (residency m)(d := (residency m d)(ep := None)) else residency m)"
proof -
  show "endpoint_blobs (evict_gated_one ep (d, s) m) ep \<noteq> None"
    using assms(2)
    by (auto simp: evict_gated_one_def forget_digest_def set_list_def split: option.split prod.split bool.split)
  have "locality_inv (evict_gated_one ep (d, s) m) \<and> residency (evict_gated_one ep (d, s) m) =
      (if evicts s (residency m d ep) then (residency m)(d := (residency m d)(ep := None)) else residency m)"
  proof (cases "bl_blobs m d")
    case None
    with assms(1) show ?thesis by (simp add: evict_gated_one_def residency_def list_of_def evicts_def)
  next
    case (Some l)
    then have "distinct (map fst l)" "residency m d = map_of l"
      using assms(1) by (auto simp: locality_inv_def residency_def list_of_def)
    with Some take_off [OF assms(1) Some, of ep] assms(1) show ?thesis
      by (simp add: evict_gated_one_def evict_gated_spec)
  qed
  then show "locality_inv (evict_gated_one ep (d, s) m)"
    "residency (evict_gated_one ep (d, s) m) =
      (if evicts s (residency m d ep) then (residency m)(d := (residency m d)(ep := None)) else residency m)"
    by simp_all
qed

lemma drop_if_empty_residency:
  "locality_inv m \<Longrightarrow> locality_inv (drop_if_empty ep m)" "residency (drop_if_empty ep m) = residency m"
proof -
  show res: "residency (drop_if_empty ep m) = residency m"
    by (rule residency_cong) (simp add: drop_if_empty_def)
  have "digests_of (drop_if_empty ep m) = digests_of m" by (auto simp: drop_if_empty_def fun_eq_iff)
  then show "locality_inv m \<Longrightarrow> locality_inv (drop_if_empty ep m)"
    using res by (simp add: locality_inv_def drop_if_empty_def)
qed

lemma remove_endpoint_residency:
  assumes "locality_inv m"
  shows "locality_inv (remove_endpoint ep m)"
    "residency (remove_endpoint ep m) d = (residency m d)(ep := None)"
proof -
  have res: "residency (remove_endpoint ep m) d = (residency m d)(ep := None)" for d
  proof (cases "d \<in> digests_of m ep")
    case True
    then obtain ds where ds: "endpoint_blobs m ep = Some ds" "d \<in> ds"
      by (auto simp: digests_of_def split: option.splits)
    from True assms have "residency m d ep \<noteq> None" by (auto simp: locality_inv_def)
    then obtain l where l: "bl_blobs m d = Some l"
      by (auto simp: residency_def list_of_def split: option.splits)
    with assms have "distinct (map fst l)" by (auto simp: locality_inv_def)
    with ds l endpoint_remove_spec [of l ep] show ?thesis
      by (auto simp: remove_endpoint_def residency_def list_of_def Let_def)
  next
    case False
    with assms have "residency m d ep = None" by (auto simp: locality_inv_def)
    with False show ?thesis
      by (auto simp: remove_endpoint_def residency_def list_of_def digests_of_def split: option.splits)
  qed
  then show "residency (remove_endpoint ep m) d = (residency m d)(ep := None)" .
  have "digests_of (remove_endpoint ep m) = (digests_of m)(ep := {})"
    by (auto simp: remove_endpoint_def digests_of_def fun_eq_iff split: option.splits)
  moreover have "l \<noteq> [] \<and> distinct (map fst l)" if "bl_blobs (remove_endpoint ep m) d = Some l" for d l
    using that assms endpoint_remove_spec
    by (auto simp: remove_endpoint_def locality_inv_def Let_def split: option.splits if_splits)
  ultimately show "locality_inv (remove_endpoint ep m)" using assms res by (auto simp: locality_inv_def)
qed

section \<open>Batches\<close>

text \<open>What happens to a map, and what it means for the stamped residency.\<close>

datatype locality_op = RegisterBlobs endpoint "digest_info list" | RegisterGated endpoint "(digest_info \<times> stamp) list"
  | EvictBlobs endpoint "digest_info list" | EvictGated endpoint "(digest_info \<times> stamp) list"
  | RemoveEndpoint endpoint

fun locality_step :: "locality_op \<Rightarrow> blob_locality_map \<Rightarrow> blob_locality_map" where
  "locality_step (RegisterBlobs ep ds) m = register_blobs ep ds m"
| "locality_step (RegisterGated ep ds) m = register_blobs_gated ep ds m"
| "locality_step (EvictBlobs ep ds) m = evict_blobs ep ds m"
| "locality_step (EvictGated ep ds) m = evict_blobs_gated ep ds m"
| "locality_step (RemoveEndpoint ep) m = remove_endpoint ep m"

type_synonym residency = "digest_info \<Rightarrow> endpoint \<Rightarrow> stamp option"

fun residency_step :: "locality_op \<Rightarrow> residency \<Rightarrow> residency" where
  "residency_step (RegisterBlobs ep ds) r = fold (\<lambda>d r. r(d := (r d)(ep \<mapsto> stamp_default))) ds r"
| "residency_step (RegisterGated ep ds) r = fold (\<lambda>(d, s) r. r(d := (r d)(ep \<mapsto> latest s (r d ep)))) ds r"
| "residency_step (EvictBlobs ep ds) r = fold (\<lambda>d r. r(d := (r d)(ep := None))) ds r"
| "residency_step (EvictGated ep ds) r =
     fold (\<lambda>(d, s) r. if evicts s (r d ep) then r(d := (r d)(ep := None)) else r) ds r"
| "residency_step (RemoveEndpoint ep) r = (\<lambda>d. (r d)(ep := None))"

lemma touch_endpoint:
  assumes "locality_inv m"
  shows "locality_inv (m\<lparr>endpoint_blobs := (endpoint_blobs m)(ep \<mapsto> digests_of m ep)\<rparr>)"
    "residency (m\<lparr>endpoint_blobs := (endpoint_blobs m)(ep \<mapsto> digests_of m ep)\<rparr>) = residency m"
proof -
  let ?m = "m\<lparr>endpoint_blobs := (endpoint_blobs m)(ep \<mapsto> digests_of m ep)\<rparr>"
  show res: "residency ?m = residency m" by (rule residency_cong) simp
  have "digests_of ?m = digests_of m" by (simp add: fun_eq_iff)
  with assms res show "locality_inv ?m" by (simp add: locality_inv_def)
qed

lemma register_fold:
  "locality_inv m \<Longrightarrow> locality_inv (fold (register_one ep) ds m) \<and>
    residency (fold (register_one ep) ds m) = fold (\<lambda>d r. r(d := (r d)(ep \<mapsto> stamp_default))) ds (residency m)"
  by (induction ds arbitrary: m) (simp_all add: register_one_residency)

lemma register_gated_fold:
  "locality_inv m \<Longrightarrow> locality_inv (fold (register_gated_one ep) ds m) \<and>
    residency (fold (register_gated_one ep) ds m) =
      fold (\<lambda>(d, s) r. r(d := (r d)(ep \<mapsto> latest s (r d ep)))) ds (residency m)"
  by (induction ds arbitrary: m) (auto simp: register_gated_one_residency)

lemma evict_fold:
  "locality_inv m \<Longrightarrow> endpoint_blobs m ep \<noteq> None \<Longrightarrow> locality_inv (fold (evict_one ep) ds m) \<and>
    residency (fold (evict_one ep) ds m) = fold (\<lambda>d r. r(d := (r d)(ep := None))) ds (residency m)"
  by (induction ds arbitrary: m) (simp_all add: evict_one_residency del: not_None_eq)

lemma evict_gated_fold:
  "locality_inv m \<Longrightarrow> endpoint_blobs m ep \<noteq> None \<Longrightarrow> locality_inv (fold (evict_gated_one ep) ds m) \<and>
    residency (fold (evict_gated_one ep) ds m) =
      fold (\<lambda>(d, s) r. if evicts s (r d ep) then r(d := (r d)(ep := None)) else r) ds (residency m)"
  by (induction ds arbitrary: m) (auto simp: evict_gated_one_residency simp del: not_None_eq)

text \<open>Evicting from an endpoint the map does not know changes nothing.\<close>

lemma unknown_endpoint:
  assumes "locality_inv m" "endpoint_blobs m ep = None"
  shows "residency m d ep = None"
  using assms by (auto simp: locality_inv_def digests_of_def dest: spec [of _ ep])

lemma evict_fold_none: "\<forall>d. r d ep = None \<Longrightarrow> fold (\<lambda>d r. r(d := (r d)(ep := None))) ds r = r"
proof (induction ds)
  case (Cons d ds)
  then have "r(d := (r d)(ep := None)) = r" by (auto simp: fun_eq_iff)
  with Cons show ?case by (simp del: fun_upd_apply)
qed simp

lemma evict_gated_fold_none:
  "\<forall>d. r d ep = None \<Longrightarrow> fold (\<lambda>(d, s) r. if evicts s (r d ep) then r(d := (r d)(ep := None)) else r) ds r = r"
  by (induction ds) (auto simp: evicts_def)

lemma locality_step_refines:
  assumes "locality_inv m"
  shows "locality_inv (locality_step x m)" "residency (locality_step x m) = residency_step x (residency m)"
proof -
  have "locality_inv (locality_step x m) \<and> residency (locality_step x m) = residency_step x (residency m)"
  proof (cases x)
    case (RegisterBlobs ep ds)
    with register_fold [OF touch_endpoint(1) [OF assms, of ep], of ep ds] touch_endpoint(2) [OF assms, of ep] show ?thesis
      by (simp add: register_blobs_def)
  next
    case (RegisterGated ep ds)
    with register_gated_fold [OF touch_endpoint(1) [OF assms, of ep], of ep ds] touch_endpoint(2) [OF assms, of ep] assms
    show ?thesis by (simp add: register_blobs_gated_def)
  next
    case (EvictBlobs ep ds)
    with assms evict_fold [OF assms, of ep ds] evict_fold_none [of "residency m" ep ds] show ?thesis
      by (auto simp: evict_blobs_def drop_if_empty_residency unknown_endpoint split: option.split)
  next
    case (EvictGated ep ds)
    with assms evict_gated_fold [OF assms, of ep ds] evict_gated_fold_none [of "residency m" ep ds] show ?thesis
      by (auto simp: evict_blobs_gated_def drop_if_empty_residency unknown_endpoint split: option.split)
  next
    case (RemoveEndpoint ep)
    with remove_endpoint_residency [OF assms, of ep] show ?thesis by (simp add: fun_eq_iff)
  qed
  then show "locality_inv (locality_step x m)" "residency (locality_step x m) = residency_step x (residency m)"
    by simp_all
qed

lemma locality_steps_refine:
  "locality_inv m \<Longrightarrow> locality_inv (fold locality_step xs m) \<and>
    residency (fold locality_step xs m) = fold residency_step xs (residency m)"
  by (induction xs arbitrary: m) (simp_all add: locality_step_refines)

lemma residency_new: "residency locality_new = (\<lambda>_ _. None)"
  by (simp add: residency_def list_of_def locality_new_def fun_eq_iff)

lemma lookup_workers_residency:
  "locality_inv m \<Longrightarrow> distinct (lookup_workers d m) \<and> set (lookup_workers d m) = {ep. residency m d ep \<noteq> None}"
  by (auto simp: lookup_workers_def residency_def list_of_def locality_inv_def map_of_eq_None_iff
      simp del: not_None_eq split: option.splits)

end
