(* ===== verification/Blobs_Chunking.thy ===== *)
theory Blobs_Chunking
  imports Digest Blob_Locality
begin

text \<open>
  The notification with which a worker tells the server what it holds, and its division into bounded
  chunks: \<^verbatim>\<open>nativelink-util/src/blobs_available_chunking.rs\<close> over the messages of
  \<^verbatim>\<open>worker_api.proto\<close>. The nine repeated fields travel as slices; \<open>chunk_sources\<close> is both the
  iterators of the chunker and, below, the payload of a chunk.
\<close>

section \<open>Messages\<close>

record blob_digest_info =
  bdi_digest :: "proto_digest option"
  ts_boot_epoch :: u64
  ts_counter :: u64

record mirror_pin_entry =
  mpe_digest :: "proto_digest option"
  mpe_store_id :: string

record blobs_available_notification =
  n_worker_cas_endpoint :: string
  n_digests :: "proto_digest list"
  n_is_full_snapshot :: bool
  n_evicted_digests :: "proto_digest list"
  n_digest_infos :: "blob_digest_info list"
  n_cpu_load_pct :: u32
  n_cached_directory_digests :: "proto_digest list"
  n_added_subtree_digests :: "proto_digest list"
  n_removed_subtree_digests :: "proto_digest list"
  n_is_full_subtree_snapshot :: bool
  n_p_core_load_pct :: u32
  n_e_core_load_pct :: u32
  n_pinned_mirror_digests :: "proto_digest list"
  n_mirror_used_bytes :: u64
  n_mirror_max_bytes :: u64
  n_pinned_mirror_entries :: "mirror_pin_entry list"
  n_pinned_ac_mirror_entries :: "mirror_pin_entry list"
  n_indefinite_pin_saturated :: bool
  n_swap_used_bytes :: u64
  n_memory_pressure_level :: u32
  n_memory_pressured :: bool
  n_available_disk_bytes :: u64
  n_disk_pressured :: bool
  n_evicted_blob_infos :: "blob_digest_info list"
  n_construct_latency_ms_p95 :: u32

record blobs_available_chunk =
  c_broadcast_id :: u64
  c_sequence :: u32
  c_is_last :: bool
  c_worker_instance_token :: u64
  c_store_id :: string
  c_is_full_snapshot :: bool
  c_worker_cas_endpoint :: string
  c_is_full_subtree_snapshot :: bool
  c_digests :: "blob_digest_info list"
  c_cached_directory_digests :: "proto_digest list"
  c_pinned_mirror_entries :: "mirror_pin_entry list"
  c_pinned_ac_mirror_entries :: "mirror_pin_entry list"
  c_evicted_digests :: "proto_digest list"
  c_cpu_load_pct :: u32
  c_p_core_load_pct :: u32
  c_e_core_load_pct :: u32
  c_mirror_used_bytes :: u64
  c_mirror_max_bytes :: u64
  c_added_subtree_digests :: "proto_digest list"
  c_removed_subtree_digests :: "proto_digest list"
  c_pinned_mirror_digests :: "proto_digest list"
  c_indefinite_pin_saturated :: bool
  c_swap_used_bytes :: u64
  c_memory_pressure_level :: u32
  c_memory_pressured :: bool
  c_available_disk_bytes :: u64
  c_disk_pressured :: bool
  c_evicted_blob_infos :: "blob_digest_info list"
  c_construct_latency_ms_p95 :: u32

section \<open>The chunker\<close>

definition BLOBS_AVAILABLE_PER_CHUNK :: nat where
  "BLOBS_AVAILABLE_PER_CHUNK = 4096"

definition BLOBS_AVAILABLE_CHUNK_THRESHOLD_BYTES :: nat where
  "BLOBS_AVAILABLE_CHUNK_THRESHOLD_BYTES = 32 * 1024"

definition BLOBS_AVAILABLE_MAX_CHUNKS_PER_BROADCAST :: nat where
  "BLOBS_AVAILABLE_MAX_CHUNKS_PER_BROADCAST = 256"

record chunk_sources =
  s_digests :: "blob_digest_info list"
  s_cached_directory_digests :: "proto_digest list"
  s_pinned_mirror_entries :: "mirror_pin_entry list"
  s_pinned_ac_mirror_entries :: "mirror_pin_entry list"
  s_evicted_digests :: "proto_digest list"
  s_evicted_blob_infos :: "blob_digest_info list"
  s_added_subtree_digests :: "proto_digest list"
  s_removed_subtree_digests :: "proto_digest list"
  s_pinned_mirror_digests :: "proto_digest list"

definition is_exhausted :: "chunk_sources \<Rightarrow> bool" where
  "is_exhausted s \<longleftrightarrow>
     length (s_digests s) = 0 \<and>
     length (s_cached_directory_digests s) = 0 \<and>
     length (s_pinned_mirror_entries s) = 0 \<and>
     length (s_pinned_ac_mirror_entries s) = 0 \<and>
     length (s_evicted_digests s) = 0 \<and>
     length (s_evicted_blob_infos s) = 0 \<and>
     length (s_added_subtree_digests s) = 0 \<and>
     length (s_removed_subtree_digests s) = 0 \<and>
     length (s_pinned_mirror_digests s) = 0"

text \<open>The rest of the source, the destination and the remaining budget.\<close>

fun drain_into :: "'a list \<Rightarrow> 'a list \<Rightarrow> nat \<Rightarrow> 'a list \<times> 'a list \<times> nat" where
  "drain_into src dst 0 = (src, dst, 0)"
| "drain_into [] dst (Suc budget) = ([], dst, Suc budget)"
| "drain_into (item # src) dst (Suc budget) = drain_into src (dst @ [item]) budget"

definition legacy_info :: "proto_digest \<Rightarrow> blob_digest_info" where
  "legacy_info d = \<lparr>bdi_digest = Some d, ts_boot_epoch = 0, ts_counter = 0\<rparr>"

definition sources_of :: "blobs_available_notification \<Rightarrow> chunk_sources" where
  "sources_of n =
     \<lparr>s_digests = n_digest_infos n @ map legacy_info (n_digests n),
      s_cached_directory_digests = n_cached_directory_digests n,
      s_pinned_mirror_entries = n_pinned_mirror_entries n,
      s_pinned_ac_mirror_entries = n_pinned_ac_mirror_entries n,
      s_evicted_digests = n_evicted_digests n,
      s_evicted_blob_infos = n_evicted_blob_infos n,
      s_added_subtree_digests = n_added_subtree_digests n,
      s_removed_subtree_digests = n_removed_subtree_digests n,
      s_pinned_mirror_digests = n_pinned_mirror_digests n\<rparr>"

definition new_chunk ::
  "blobs_available_notification \<Rightarrow> u64 \<Rightarrow> u64 \<Rightarrow> string \<Rightarrow> u32 \<Rightarrow> blobs_available_chunk" where
  "new_chunk n broadcast_id token store_id sequence =
     \<lparr>c_broadcast_id = broadcast_id,
      c_sequence = sequence,
      c_is_last = False,
      c_worker_instance_token = token,
      c_store_id = store_id,
      c_is_full_snapshot = n_is_full_snapshot n,
      c_worker_cas_endpoint = (if sequence = 0 then n_worker_cas_endpoint n else []),
      c_is_full_subtree_snapshot = (if sequence = 0 then n_is_full_subtree_snapshot n else False),
      c_digests = [],
      c_cached_directory_digests = [],
      c_pinned_mirror_entries = [],
      c_pinned_ac_mirror_entries = [],
      c_evicted_digests = [],
      c_cpu_load_pct = (if sequence = 0 then n_cpu_load_pct n else 0),
      c_p_core_load_pct = (if sequence = 0 then n_p_core_load_pct n else 0),
      c_e_core_load_pct = (if sequence = 0 then n_e_core_load_pct n else 0),
      c_mirror_used_bytes = (if sequence = 0 then n_mirror_used_bytes n else 0),
      c_mirror_max_bytes = (if sequence = 0 then n_mirror_max_bytes n else 0),
      c_added_subtree_digests = [],
      c_removed_subtree_digests = [],
      c_pinned_mirror_digests = [],
      c_indefinite_pin_saturated = (if sequence = 0 then n_indefinite_pin_saturated n else False),
      c_swap_used_bytes = (if sequence = 0 then n_swap_used_bytes n else 0),
      c_memory_pressure_level = (if sequence = 0 then n_memory_pressure_level n else 0),
      c_memory_pressured = (if sequence = 0 then n_memory_pressured n else False),
      c_available_disk_bytes = (if sequence = 0 then n_available_disk_bytes n else 0),
      c_disk_pressured = (if sequence = 0 then n_disk_pressured n else False),
      c_evicted_blob_infos = [],
      c_construct_latency_ms_p95 = (if sequence = 0 then n_construct_latency_ms_p95 n else 0)\<rparr>"

definition fill_chunk ::
  "nat \<Rightarrow> blobs_available_chunk \<Rightarrow> chunk_sources \<Rightarrow> blobs_available_chunk \<times> chunk_sources \<times> nat" where
  "fill_chunk max_per_chunk chunk src =
     (case drain_into (s_digests src) (c_digests chunk) max_per_chunk of (s1, d1, budget) \<Rightarrow>
      case drain_into (s_cached_directory_digests src) (c_cached_directory_digests chunk) budget of (s2, d2, budget) \<Rightarrow>
      case drain_into (s_pinned_mirror_entries src) (c_pinned_mirror_entries chunk) budget of (s3, d3, budget) \<Rightarrow>
      case drain_into (s_pinned_ac_mirror_entries src) (c_pinned_ac_mirror_entries chunk) budget of (s4, d4, budget) \<Rightarrow>
      case drain_into (s_evicted_digests src) (c_evicted_digests chunk) budget of (s5, d5, budget) \<Rightarrow>
      case drain_into (s_evicted_blob_infos src) (c_evicted_blob_infos chunk) budget of (s6, d6, budget) \<Rightarrow>
      case drain_into (s_added_subtree_digests src) (c_added_subtree_digests chunk) budget of (s7, d7, budget) \<Rightarrow>
      case drain_into (s_removed_subtree_digests src) (c_removed_subtree_digests chunk) budget of (s8, d8, budget) \<Rightarrow>
      case drain_into (s_pinned_mirror_digests src) (c_pinned_mirror_digests chunk) budget of (s9, d9, budget) \<Rightarrow>
      (chunk\<lparr>c_digests := d1, c_cached_directory_digests := d2, c_pinned_mirror_entries := d3,
             c_pinned_ac_mirror_entries := d4, c_evicted_digests := d5, c_evicted_blob_infos := d6,
             c_added_subtree_digests := d7, c_removed_subtree_digests := d8, c_pinned_mirror_digests := d9\<rparr>,
       \<lparr>s_digests = s1, s_cached_directory_digests = s2, s_pinned_mirror_entries = s3,
        s_pinned_ac_mirror_entries = s4, s_evicted_digests = s5, s_evicted_blob_infos = s6,
        s_added_subtree_digests = s7, s_removed_subtree_digests = s8, s_pinned_mirror_digests = s9\<rparr>,
       budget))"

text \<open>The number of entries in all slices; the loop runs down on it.\<close>

definition sources_size :: "chunk_sources \<Rightarrow> nat" where
  "sources_size s =
     length (s_digests s) + length (s_cached_directory_digests s) + length (s_pinned_mirror_entries s) +
     length (s_pinned_ac_mirror_entries s) + length (s_evicted_digests s) + length (s_evicted_blob_infos s) +
     length (s_added_subtree_digests s) + length (s_removed_subtree_digests s) + length (s_pinned_mirror_digests s)"

lemma drain_into_eq: "drain_into src dst budget = (drop budget src, dst @ take budget src, budget - length src)"
  by (induction src dst budget rule: drain_into.induct) auto

text \<open>What one pass over the slices takes and leaves, as functions of the budget.\<close>

definition take_sources :: "nat \<Rightarrow> chunk_sources \<Rightarrow> chunk_sources" where
  "take_sources k s =
     (let k2 = k - length (s_digests s);
          k3 = k2 - length (s_cached_directory_digests s);
          k4 = k3 - length (s_pinned_mirror_entries s);
          k5 = k4 - length (s_pinned_ac_mirror_entries s);
          k6 = k5 - length (s_evicted_digests s);
          k7 = k6 - length (s_evicted_blob_infos s);
          k8 = k7 - length (s_added_subtree_digests s);
          k9 = k8 - length (s_removed_subtree_digests s)
      in \<lparr>s_digests = take k (s_digests s),
          s_cached_directory_digests = take k2 (s_cached_directory_digests s),
          s_pinned_mirror_entries = take k3 (s_pinned_mirror_entries s),
          s_pinned_ac_mirror_entries = take k4 (s_pinned_ac_mirror_entries s),
          s_evicted_digests = take k5 (s_evicted_digests s),
          s_evicted_blob_infos = take k6 (s_evicted_blob_infos s),
          s_added_subtree_digests = take k7 (s_added_subtree_digests s),
          s_removed_subtree_digests = take k8 (s_removed_subtree_digests s),
          s_pinned_mirror_digests = take k9 (s_pinned_mirror_digests s)\<rparr>)"

definition drop_sources :: "nat \<Rightarrow> chunk_sources \<Rightarrow> chunk_sources" where
  "drop_sources k s =
     (let k2 = k - length (s_digests s);
          k3 = k2 - length (s_cached_directory_digests s);
          k4 = k3 - length (s_pinned_mirror_entries s);
          k5 = k4 - length (s_pinned_ac_mirror_entries s);
          k6 = k5 - length (s_evicted_digests s);
          k7 = k6 - length (s_evicted_blob_infos s);
          k8 = k7 - length (s_added_subtree_digests s);
          k9 = k8 - length (s_removed_subtree_digests s)
      in \<lparr>s_digests = drop k (s_digests s),
          s_cached_directory_digests = drop k2 (s_cached_directory_digests s),
          s_pinned_mirror_entries = drop k3 (s_pinned_mirror_entries s),
          s_pinned_ac_mirror_entries = drop k4 (s_pinned_ac_mirror_entries s),
          s_evicted_digests = drop k5 (s_evicted_digests s),
          s_evicted_blob_infos = drop k6 (s_evicted_blob_infos s),
          s_added_subtree_digests = drop k7 (s_added_subtree_digests s),
          s_removed_subtree_digests = drop k8 (s_removed_subtree_digests s),
          s_pinned_mirror_digests = drop k9 (s_pinned_mirror_digests s)\<rparr>)"

text \<open>The payload of a chunk, and a chunk with another payload.\<close>

definition payload :: "blobs_available_chunk \<Rightarrow> chunk_sources" where
  "payload c =
     \<lparr>s_digests = c_digests c, s_cached_directory_digests = c_cached_directory_digests c,
      s_pinned_mirror_entries = c_pinned_mirror_entries c, s_pinned_ac_mirror_entries = c_pinned_ac_mirror_entries c,
      s_evicted_digests = c_evicted_digests c, s_evicted_blob_infos = c_evicted_blob_infos c,
      s_added_subtree_digests = c_added_subtree_digests c, s_removed_subtree_digests = c_removed_subtree_digests c,
      s_pinned_mirror_digests = c_pinned_mirror_digests c\<rparr>"

definition set_payload :: "chunk_sources \<Rightarrow> blobs_available_chunk \<Rightarrow> blobs_available_chunk" where
  "set_payload p c =
     c\<lparr>c_digests := s_digests p, c_cached_directory_digests := s_cached_directory_digests p,
       c_pinned_mirror_entries := s_pinned_mirror_entries p, c_pinned_ac_mirror_entries := s_pinned_ac_mirror_entries p,
       c_evicted_digests := s_evicted_digests p, c_evicted_blob_infos := s_evicted_blob_infos p,
       c_added_subtree_digests := s_added_subtree_digests p, c_removed_subtree_digests := s_removed_subtree_digests p,
       c_pinned_mirror_digests := s_pinned_mirror_digests p\<rparr>"

definition no_sources :: chunk_sources where
  "no_sources =
     \<lparr>s_digests = [], s_cached_directory_digests = [], s_pinned_mirror_entries = [],
      s_pinned_ac_mirror_entries = [], s_evicted_digests = [], s_evicted_blob_infos = [],
      s_added_subtree_digests = [], s_removed_subtree_digests = [], s_pinned_mirror_digests = []\<rparr>"

definition append_sources :: "chunk_sources \<Rightarrow> chunk_sources \<Rightarrow> chunk_sources" where
  "append_sources a b =
     \<lparr>s_digests = s_digests a @ s_digests b,
      s_cached_directory_digests = s_cached_directory_digests a @ s_cached_directory_digests b,
      s_pinned_mirror_entries = s_pinned_mirror_entries a @ s_pinned_mirror_entries b,
      s_pinned_ac_mirror_entries = s_pinned_ac_mirror_entries a @ s_pinned_ac_mirror_entries b,
      s_evicted_digests = s_evicted_digests a @ s_evicted_digests b,
      s_evicted_blob_infos = s_evicted_blob_infos a @ s_evicted_blob_infos b,
      s_added_subtree_digests = s_added_subtree_digests a @ s_added_subtree_digests b,
      s_removed_subtree_digests = s_removed_subtree_digests a @ s_removed_subtree_digests b,
      s_pinned_mirror_digests = s_pinned_mirror_digests a @ s_pinned_mirror_digests b\<rparr>"

lemma append_sources_assoc: "append_sources (append_sources a b) c = append_sources a (append_sources b c)"
  by (simp add: append_sources_def)

lemma append_no_sources [simp]: "append_sources no_sources a = a" "append_sources a no_sources = a"
  by (simp_all add: append_sources_def no_sources_def)

lemma size_append_sources [simp]: "sources_size (append_sources a b) = sources_size a + sources_size b"
  by (simp add: sources_size_def append_sources_def)

lemma is_exhausted_size: "is_exhausted s \<longleftrightarrow> sources_size s = 0"
  by (auto simp: is_exhausted_def sources_size_def)

lemma sources_size_0: "sources_size s = 0 \<longleftrightarrow> s = no_sources"
  by (auto simp: sources_size_def no_sources_def)

lemma append_take_drop_sources: "append_sources (take_sources k s) (drop_sources k s) = s"
  by (simp add: append_sources_def take_sources_def drop_sources_def Let_def)

lemma drop_two: "(a - k) + (b - (k - a)) = a + b - (k :: nat)"
  by arith

lemma size_drop_sources: "sources_size (drop_sources k s) = sources_size s - k"
  by (simp only: sources_size_def drop_sources_def Let_def chunk_sources.select_convs length_drop
      diff_diff_left add.assoc [symmetric] drop_two)

lemma size_take_sources: "sources_size (take_sources k s) = min k (sources_size s)"
proof -
  have "sources_size (take_sources k s) + sources_size (drop_sources k s) = sources_size s"
    using size_append_sources [of "take_sources k s" "drop_sources k s"]
    by (simp add: append_take_drop_sources)
  then show ?thesis by (simp add: size_drop_sources)
qed

lemma payload_new_chunk: "payload (new_chunk n b t st q) = no_sources"
  by (simp add: payload_def new_chunk_def no_sources_def)

lemma fill_chunk_eq:
  "fill_chunk k c src =
    (set_payload (append_sources (payload c) (take_sources k src)) c, drop_sources k src, k - sources_size src)"
  by (simp add: fill_chunk_def drain_into_eq set_payload_def append_sources_def payload_def
      take_sources_def drop_sources_def Let_def sources_size_def)

section \<open>The loop\<close>

definition too_many_chunks :: string where
  "too_many_chunks = ''BlobsAvailable broadcast would exceed BLOBS_AVAILABLE_MAX_CHUNKS_PER_BROADCAST (256); chunker output cannot round-trip the server's MAX_SEQUENCES cap''"

text \<open>
  The second way out of the loop, for a pass that takes nothing although something is left, keeps the
  shape of the source; it is never taken when the bound is positive.
\<close>

function chunk_loop ::
  "blobs_available_notification \<Rightarrow> u64 \<Rightarrow> u64 \<Rightarrow> string \<Rightarrow> nat \<Rightarrow> chunk_sources \<Rightarrow> u32 \<Rightarrow>
    blobs_available_chunk list \<Rightarrow> string + blobs_available_chunk list" where
  "chunk_loop n broadcast_id token store_id max_per_chunk src sequence chunks =
     (case fill_chunk max_per_chunk (new_chunk n broadcast_id token store_id sequence) src of
        (chunk, src', budget) \<Rightarrow>
          let drained_this_chunk = max_per_chunk - budget
          in if is_exhausted src' then Inr (chunks @ [chunk\<lparr>c_is_last := True\<rparr>])
             else if drained_this_chunk = 0 then Inr (chunks @ [chunk\<lparr>c_is_last := True\<rparr>])
             else
               let sequence' = saturating_add sequence 1
               in if BLOBS_AVAILABLE_MAX_CHUNKS_PER_BROADCAST \<le> unat sequence' then Inl too_many_chunks
                  else chunk_loop n broadcast_id token store_id max_per_chunk src' sequence' (chunks @ [chunk]))"
  by pat_completeness auto
termination
  by (relation "measure (\<lambda>(_, _, _, _, _, src, _). sources_size src)")
    (auto simp: fill_chunk_eq size_drop_sources is_exhausted_size)

declare chunk_loop.simps [simp del]

definition chunk_blobs_available ::
  "blobs_available_notification \<Rightarrow> u64 \<Rightarrow> u64 \<Rightarrow> string \<Rightarrow> nat \<Rightarrow> string + blobs_available_chunk list" where
  "chunk_blobs_available n broadcast_id token store_id max_per_chunk =
     chunk_loop n broadcast_id token store_id (max max_per_chunk 1) (sources_of n) 0 []"

definition estimated_encoded_bytes :: "blobs_available_notification \<Rightarrow> nat" where
  "estimated_encoded_bytes n =
     length (n_digests n) * 40
     + length (n_digest_infos n) * 40
     + length (n_cached_directory_digests n) * 40
     + length (n_pinned_mirror_entries n) * 80
     + length (n_pinned_ac_mirror_entries n) * 80
     + length (n_evicted_digests n) * 40
     + length (n_added_subtree_digests n) * 40
     + length (n_removed_subtree_digests n) * 40
     + length (n_pinned_mirror_digests n) * 40"

definition should_chunk :: "blobs_available_notification \<Rightarrow> bool" where
  "should_chunk n \<longleftrightarrow> BLOBS_AVAILABLE_CHUNK_THRESHOLD_BYTES < estimated_encoded_bytes n"

section \<open>The chunks, cut from the notification\<close>

text \<open>
  A description of the result without a loop over mutable iterators: the payload is cut into pieces,
  the pieces are numbered, and only the last one is marked.
\<close>

function cut_sources :: "nat \<Rightarrow> chunk_sources \<Rightarrow> chunk_sources list" where
  "cut_sources k s =
     take_sources k s # (if k = 0 \<or> is_exhausted (drop_sources k s) then [] else cut_sources k (drop_sources k s))"
  by pat_completeness auto
termination
  by (relation "measure (\<lambda>(_, s). sources_size s)") (auto simp: size_drop_sources is_exhausted_size)

declare cut_sources.simps [simp del]

definition join_sources :: "chunk_sources list \<Rightarrow> chunk_sources" where
  "join_sources ps = foldr append_sources ps no_sources"

fun number_chunks ::
  "blobs_available_notification \<Rightarrow> u64 \<Rightarrow> u64 \<Rightarrow> string \<Rightarrow> nat \<Rightarrow> chunk_sources list \<Rightarrow> blobs_available_chunk list" where
  "number_chunks n b t st i [] = []"
| "number_chunks n b t st i (p # ps) =
     (set_payload p (new_chunk n b t st (of_nat i)))\<lparr>c_is_last := (ps = [])\<rparr> # number_chunks n b t st (Suc i) ps"

lemma join_sources_simps [simp]:
  "join_sources [] = no_sources" "join_sources (p # ps) = append_sources p (join_sources ps)"
  by (simp_all add: join_sources_def)

lemma join_sources_append [simp]: "join_sources (ps @ qs) = append_sources (join_sources ps) (join_sources qs)"
  by (induction ps) (simp_all add: append_sources_assoc)

lemma size_join_sources: "sources_size (join_sources ps) = sum_list (map sources_size ps)"
  by (induction ps) (simp_all add: sources_size_0)

lemma cut_sources_not_Nil [simp]: "cut_sources k s \<noteq> []"
  by (subst cut_sources.simps) simp

lemma chunk_loop_eq:
  assumes "0 < k" "i < 256"
  shows "chunk_loop n b t st k src (of_nat i) acc =
    (if 256 < i + length (cut_sources k src) then Inl too_many_chunks
     else Inr (acc @ number_chunks n b t st i (cut_sources k src)))"
  using assms
proof (induction k src arbitrary: i acc rule: cut_sources.induct)
  case (1 k src)
  have next_sequence: "saturating_add (of_nat i) 1 = (of_nat (Suc i) :: u32)"
    using 1(3) by (simp add: saturating_add_def unat_of_nat_small)
  show ?case
  proof (cases "is_exhausted (drop_sources k src)")
    case True
    then show ?thesis
      using 1(3) by (subst chunk_loop.simps) (simp add: fill_chunk_eq payload_new_chunk cut_sources.simps [of k src])
  next
    case False
    let ?chunk = "set_payload (take_sources k src) (new_chunk n b t st (of_nat i))"
    have "k - sources_size src = 0"
      using False by (simp add: is_exhausted_size size_drop_sources)
    then have step: "chunk_loop n b t st k src (of_nat i) acc =
      (if 256 \<le> unat (of_nat (Suc i) :: u32) then Inl too_many_chunks
       else chunk_loop n b t st k (drop_sources k src) (of_nat (Suc i)) (acc @ [?chunk]))"
      using False 1(2) by (subst chunk_loop.simps)
        (simp add: fill_chunk_eq payload_new_chunk next_sequence BLOBS_AVAILABLE_MAX_CHUNKS_PER_BROADCAST_def
          del: of_nat_Suc)
    have cut: "cut_sources k src = take_sources k src # cut_sources k (drop_sources k src)"
      using False 1(2) by (subst cut_sources.simps) simp
    show ?thesis
    proof (cases "Suc i < 256")
      case True
      show ?thesis
        using 1(1) [OF _ 1(2) True] False 1(2) True
        by (simp add: step cut unat_of_nat_small new_chunk_def set_payload_def del: of_nat_Suc)
    next
      case False
      then show ?thesis
        using 1(3) cut_sources_not_Nil [of k "drop_sources k src"]
        by (simp add: step cut unat_of_nat_small Suc_le_eq Suc_less_eq2 del: of_nat_Suc cut_sources_not_Nil)
          (cases "cut_sources k (drop_sources k src)"; simp)
    qed
  qed
qed

lemma chunk_blobs_available_eq:
  "chunk_blobs_available n b t st k =
    (let ps = cut_sources (max k 1) (sources_of n)
     in if 256 < length ps then Inl too_many_chunks else Inr (number_chunks n b t st 0 ps))"
  using chunk_loop_eq [of "max k 1" 0 n b t st "sources_of n" "[]"]
  by (simp add: chunk_blobs_available_def Let_def)

lemma join_cut_sources: "0 < k \<Longrightarrow> join_sources (cut_sources k s) = s"
proof (induction k s rule: cut_sources.induct)
  case (1 k s)
  show ?case
  proof (cases "is_exhausted (drop_sources k s)")
    case True
    then have "drop_sources k s = no_sources" by (simp add: is_exhausted_size sources_size_0)
    then have "take_sources k s = s" using append_take_drop_sources [of k s] by simp
    then show ?thesis using True by (subst cut_sources.simps) simp
  next
    case False
    then show ?thesis
      using 1 by (subst cut_sources.simps) (simp add: append_take_drop_sources)
  qed
qed

lemma length_cut_sources: "0 < k \<Longrightarrow> length (cut_sources k s) = max 1 ((sources_size s + k - 1) div k)"
proof (induction k s rule: cut_sources.induct)
  case (1 k s)
  show ?case
  proof (cases "is_exhausted (drop_sources k s)")
    case True
    then have "sources_size s \<le> k" by (simp add: is_exhausted_size size_drop_sources)
    then have "(sources_size s + k - 1) div k < 2"
      using 1(2) by (subst div_less_iff_less_mult) simp_all
    then show ?thesis using True by (subst cut_sources.simps) simp
  next
    case False
    then have more: "k < sources_size s" by (simp add: is_exhausted_size size_drop_sources)
    then have "sources_size s + k - 1 = (sources_size s - k + k - 1) + k" by simp
    then have "(sources_size s + k - 1) div k = Suc ((sources_size s - k + k - 1) div k)"
      using 1(2) by (simp only: div_add_self2)
    moreover have "1 \<le> (sources_size s - k + k - 1) div k"
      using more 1(2) by (simp add: div_greater_zero_iff Suc_le_eq)
    ultimately show ?thesis
      using False 1 by (subst cut_sources.simps) (simp add: size_drop_sources)
  qed
qed

lemma cut_sources_sizes:
  "0 < k \<Longrightarrow> i < length (cut_sources k s) \<Longrightarrow>
    sources_size (cut_sources k s ! i) \<le> k \<and>
    (Suc i < length (cut_sources k s) \<longrightarrow> sources_size (cut_sources k s ! i) = k)"
proof (induction k s arbitrary: i rule: cut_sources.induct)
  case (1 k s)
  show ?case
  proof (cases "is_exhausted (drop_sources k s)")
    case True
    then have "cut_sources k s = [take_sources k s]" by (subst cut_sources.simps) simp
    then show ?thesis using 1(3) by (simp add: size_take_sources)
  next
    case False
    then have "k < sources_size s" by (simp add: is_exhausted_size size_drop_sources)
    moreover have "cut_sources k s = take_sources k s # cut_sources k (drop_sources k s)"
      using False 1(2) by (subst cut_sources.simps) simp
    ultimately show ?thesis
      using False 1 by (cases i) (auto simp: size_take_sources)
  qed
qed

end
