(* ===== verification/Blobs_Accumulator.thy ===== *)
theory Blobs_Accumulator
  imports Blobs_Chunking "HOL-Library.Sublist"
begin

text \<open>
  The server's side of a chunked notification:
  \<^verbatim>\<open>nativelink-service/src/blobs_available_accumulator.rs\<close>. One accumulator serves one connection; it
  collects the chunks of up to eight broadcasts and hands a notification on when the terminal chunk
  of a complete broadcast arrives. The mutex makes each call one step. The drop counters are part of
  the state; log lines are not. The static reason strings of \<^verbatim>\<open>merge\<close> are constructors.
\<close>

unbundle bit_operations_syntax

section \<open>One broadcast\<close>

type_synonym u128 = "128 word"

definition MAX_INFLIGHT_BROADCASTS_PER_CONN :: nat where
  "MAX_INFLIGHT_BROADCASTS_PER_CONN = 8"

definition MAX_ACCUMULATED_ENTRIES_PER_CONN :: nat where
  "MAX_ACCUMULATED_ENTRIES_PER_CONN = 1000000"

definition MAX_SEQUENCES :: u32 where
  "MAX_SEQUENCES = 256"

definition MAX_ENTRIES_PER_CHUNK :: nat where
  "MAX_ENTRIES_PER_CHUNK = 8192"

record header_scalars =
  h_worker_cas_endpoint :: string
  h_is_full_subtree_snapshot :: bool
  h_cpu_load_pct :: u32
  h_p_core_load_pct :: u32
  h_e_core_load_pct :: u32
  h_mirror_used_bytes :: u64
  h_mirror_max_bytes :: u64
  h_indefinite_pin_saturated :: bool
  h_swap_used_bytes :: u64
  h_memory_pressure_level :: u32
  h_memory_pressured :: bool
  h_available_disk_bytes :: u64
  h_disk_pressured :: bool
  h_construct_latency_ms_p95 :: u32

text \<open>\<^verbatim>\<open>BlobsAvailableNotification::default()\<close>: every field of the message at its protobuf default.\<close>

definition notification_default :: blobs_available_notification where
  "notification_default =
     \<lparr>n_worker_cas_endpoint = [], n_digests = [], n_is_full_snapshot = False, n_evicted_digests = [],
      n_digest_infos = [], n_cpu_load_pct = 0, n_cached_directory_digests = [], n_added_subtree_digests = [],
      n_removed_subtree_digests = [], n_is_full_subtree_snapshot = False, n_p_core_load_pct = 0,
      n_e_core_load_pct = 0, n_pinned_mirror_digests = [], n_mirror_used_bytes = 0, n_mirror_max_bytes = 0,
      n_pinned_mirror_entries = [], n_pinned_ac_mirror_entries = [], n_indefinite_pin_saturated = False,
      n_swap_used_bytes = 0, n_memory_pressure_level = 0, n_memory_pressured = False,
      n_available_disk_bytes = 0, n_disk_pressured = False, n_evicted_blob_infos = [],
      n_construct_latency_ms_p95 = 0\<rparr>"

record broadcast_accumulator =
  a_worker_instance_token :: u64
  a_store_id :: string
  a_is_full_snapshot :: bool
  a_header_scalars :: "header_scalars option"
  a_body :: blobs_available_notification
  accumulated_entries :: nat
  seen_sequences_lo :: u128
  seen_sequences_hi :: u128
  max_seen_sequence :: u32

definition broadcast_new :: "blobs_available_chunk \<Rightarrow> broadcast_accumulator" where
  "broadcast_new first_chunk =
     \<lparr>a_worker_instance_token = c_worker_instance_token first_chunk,
      a_store_id = c_store_id first_chunk,
      a_is_full_snapshot = c_is_full_snapshot first_chunk,
      a_header_scalars = None,
      a_body = notification_default,
      accumulated_entries = 0,
      seen_sequences_lo = 0,
      seen_sequences_hi = 0,
      max_seen_sequence = 0\<rparr>"

definition entries_in_chunk :: "blobs_available_chunk \<Rightarrow> nat" where
  "entries_in_chunk chunk =
     length (c_digests chunk)
     + length (c_cached_directory_digests chunk)
     + length (c_pinned_mirror_entries chunk)
     + length (c_pinned_ac_mirror_entries chunk)
     + length (c_evicted_digests chunk)
     + length (c_evicted_blob_infos chunk)
     + length (c_added_subtree_digests chunk)
     + length (c_removed_subtree_digests chunk)
     + length (c_pinned_mirror_digests chunk)"

datatype merge_error = TokenMismatch | StoreIdMismatch | FullSnapshotInconsistent | SequenceExceedsMax
  | DuplicateSequence

definition chunk_header :: "blobs_available_chunk \<Rightarrow> header_scalars" where
  "chunk_header chunk =
     \<lparr>h_worker_cas_endpoint = c_worker_cas_endpoint chunk,
      h_is_full_subtree_snapshot = c_is_full_subtree_snapshot chunk,
      h_cpu_load_pct = c_cpu_load_pct chunk,
      h_p_core_load_pct = c_p_core_load_pct chunk,
      h_e_core_load_pct = c_e_core_load_pct chunk,
      h_mirror_used_bytes = c_mirror_used_bytes chunk,
      h_mirror_max_bytes = c_mirror_max_bytes chunk,
      h_indefinite_pin_saturated = c_indefinite_pin_saturated chunk,
      h_swap_used_bytes = c_swap_used_bytes chunk,
      h_memory_pressure_level = c_memory_pressure_level chunk,
      h_memory_pressured = c_memory_pressured chunk,
      h_available_disk_bytes = c_available_disk_bytes chunk,
      h_disk_pressured = c_disk_pressured chunk,
      h_construct_latency_ms_p95 = c_construct_latency_ms_p95 chunk\<rparr>"

definition extend_body :: "blobs_available_chunk \<Rightarrow> blobs_available_notification \<Rightarrow> blobs_available_notification" where
  "extend_body chunk body =
     body\<lparr>n_digest_infos := n_digest_infos body @ c_digests chunk,
          n_cached_directory_digests := n_cached_directory_digests body @ c_cached_directory_digests chunk,
          n_pinned_mirror_entries := n_pinned_mirror_entries body @ c_pinned_mirror_entries chunk,
          n_pinned_ac_mirror_entries := n_pinned_ac_mirror_entries body @ c_pinned_ac_mirror_entries chunk,
          n_evicted_digests := n_evicted_digests body @ c_evicted_digests chunk,
          n_evicted_blob_infos := n_evicted_blob_infos body @ c_evicted_blob_infos chunk,
          n_added_subtree_digests := n_added_subtree_digests body @ c_added_subtree_digests chunk,
          n_removed_subtree_digests := n_removed_subtree_digests body @ c_removed_subtree_digests chunk,
          n_pinned_mirror_digests := n_pinned_mirror_digests body @ c_pinned_mirror_digests chunk\<rparr>"

text \<open>\<open>1u128 << n\<close> for \<open>n < 128\<close>.\<close>

definition bit_lo :: "u32 \<Rightarrow> u128" where
  "bit_lo sequence = (if sequence < 128 then push_bit (unat sequence) 1 else 0)"

definition bit_hi :: "u32 \<Rightarrow> u128" where
  "bit_hi sequence = (if 128 \<le> sequence then push_bit (unat (sequence - 128)) 1 else 0)"

definition merge :: "broadcast_accumulator \<Rightarrow> blobs_available_chunk \<Rightarrow> (merge_error + bool) \<times> broadcast_accumulator" where
  "merge a chunk =
     (if c_worker_instance_token chunk \<noteq> a_worker_instance_token a then (Inl TokenMismatch, a)
      else if c_store_id chunk \<noteq> a_store_id a then (Inl StoreIdMismatch, a)
      else if c_is_full_snapshot chunk \<noteq> a_is_full_snapshot a then (Inl FullSnapshotInconsistent, a)
      else if MAX_SEQUENCES \<le> c_sequence chunk then (Inl SequenceExceedsMax, a)
      else
        let lo = bit_lo (c_sequence chunk);
            hi = bit_hi (c_sequence chunk)
        in if seen_sequences_lo a AND lo \<noteq> 0 \<or> seen_sequences_hi a AND hi \<noteq> 0 then (Inl DuplicateSequence, a)
           else
             (Inr (c_is_last chunk),
              a\<lparr>seen_sequences_lo := seen_sequences_lo a OR lo,
                seen_sequences_hi := seen_sequences_hi a OR hi,
                max_seen_sequence :=
                  (if max_seen_sequence a < c_sequence chunk then c_sequence chunk else max_seen_sequence a),
                a_header_scalars :=
                  (if c_sequence chunk = 0 then Some (chunk_header chunk) else a_header_scalars a),
                accumulated_entries := accumulated_entries a + entries_in_chunk chunk,
                a_body := extend_body chunk (a_body a)\<rparr>))"

definition sequences_contiguous :: "broadcast_accumulator \<Rightarrow> bool" where
  "sequences_contiguous a =
     (let count = unat (max_seen_sequence a) + 1
      in if count \<le> 128 then
           let expected = (if count = 128 then - 1 else push_bit count 1 - 1)
           in seen_sequences_lo a = expected \<and> seen_sequences_hi a = 0
         else if count \<le> 256 then
           let high_count = count - 128;
               expected_hi = (if high_count = 128 then - 1 else push_bit high_count 1 - 1)
           in seen_sequences_lo a = - 1 \<and> seen_sequences_hi a = expected_hi
         else False)"

section \<open>One connection\<close>

record chunk_drop_counts =
  dropped_token_zero :: u64
  dropped_token_mismatch :: u64
  dropped_per_conn_broadcasts_cap :: u64
  dropped_per_conn_entries_cap :: u64
  dropped_per_chunk_entries_cap :: u64
  dropped_sequence_cap :: u64
  dropped_validation_other :: u64
  dropped_incomplete_sequence :: u64
  dropped_missing_chunk_zero :: u64

record blobs_available_accumulator =
  broadcasts :: "u64 \<rightharpoonup> broadcast_accumulator"
  total_accumulated :: nat
  drop_counts :: chunk_drop_counts

definition drop_counts_default :: chunk_drop_counts where
  "drop_counts_default =
     \<lparr>dropped_token_zero = 0, dropped_token_mismatch = 0, dropped_per_conn_broadcasts_cap = 0,
      dropped_per_conn_entries_cap = 0, dropped_per_chunk_entries_cap = 0, dropped_sequence_cap = 0,
      dropped_validation_other = 0, dropped_incomplete_sequence = 0, dropped_missing_chunk_zero = 0\<rparr>"

definition accumulator_new_with_drop_counts :: "chunk_drop_counts \<Rightarrow> blobs_available_accumulator" where
  "accumulator_new_with_drop_counts counts =
     \<lparr>broadcasts = Map.empty, total_accumulated = 0, drop_counts = counts\<rparr>"

definition accumulator_new :: blobs_available_accumulator where
  "accumulator_new = accumulator_new_with_drop_counts drop_counts_default"

datatype merge_outcome = Accepted "blobs_available_notification option" | Dropped

text \<open>\<^verbatim>\<open>fetch_add(1)\<close> on one of the counters.\<close>

definition count_drop :: "((u64 \<Rightarrow> u64) \<Rightarrow> chunk_drop_counts \<Rightarrow> chunk_drop_counts) \<Rightarrow>
  blobs_available_accumulator \<Rightarrow> blobs_available_accumulator" where
  "count_drop upd s = s\<lparr>drop_counts := upd (\<lambda>k. k + 1) (drop_counts s)\<rparr>"

text \<open>Removing a broadcast and the entries it accounts for.\<close>

definition remove_broadcast :: "u64 \<Rightarrow> blobs_available_accumulator \<Rightarrow> blobs_available_accumulator" where
  "remove_broadcast broadcast_id s =
     (case broadcasts s broadcast_id of
        None \<Rightarrow> s
      | Some removed \<Rightarrow>
          s\<lparr>broadcasts := (broadcasts s)(broadcast_id := None),
            total_accumulated := total_accumulated s - accumulated_entries removed\<rparr>)"

definition assemble :: "broadcast_accumulator \<Rightarrow> blobs_available_notification" where
  "assemble removed =
     (case a_header_scalars removed of
        None \<Rightarrow> a_body removed
      | Some headers \<Rightarrow>
          (a_body removed)\<lparr>
            n_worker_cas_endpoint := h_worker_cas_endpoint headers,
            n_is_full_subtree_snapshot := h_is_full_subtree_snapshot headers,
            n_cpu_load_pct := h_cpu_load_pct headers,
            n_p_core_load_pct := h_p_core_load_pct headers,
            n_e_core_load_pct := h_e_core_load_pct headers,
            n_mirror_used_bytes := h_mirror_used_bytes headers,
            n_mirror_max_bytes := h_mirror_max_bytes headers,
            n_indefinite_pin_saturated := h_indefinite_pin_saturated headers,
            n_swap_used_bytes := h_swap_used_bytes headers,
            n_memory_pressure_level := h_memory_pressure_level headers,
            n_memory_pressured := h_memory_pressured headers,
            n_available_disk_bytes := h_available_disk_bytes headers,
            n_disk_pressured := h_disk_pressured headers,
            n_construct_latency_ms_p95 := h_construct_latency_ms_p95 headers\<rparr>)
       \<lparr>n_is_full_snapshot := a_is_full_snapshot removed\<rparr>"

text \<open>The broadcast a chunk belongs to: kept, or begun anew for a new broadcast or a restarted worker.\<close>

definition ensure_broadcast ::
  "blobs_available_chunk \<Rightarrow> blobs_available_accumulator \<Rightarrow> broadcast_accumulator \<times> blobs_available_accumulator" where
  "ensure_broadcast chunk s =
     (case broadcasts s (c_broadcast_id chunk) of
        Some existing \<Rightarrow>
          if a_worker_instance_token existing \<noteq> c_worker_instance_token chunk then
            (broadcast_new chunk,
             (count_drop dropped_token_mismatch_update s)
               \<lparr>total_accumulated := total_accumulated s - accumulated_entries existing,
                broadcasts := (broadcasts s)(c_broadcast_id chunk \<mapsto> broadcast_new chunk)\<rparr>)
          else (existing, s)
      | None \<Rightarrow>
          (broadcast_new chunk, s\<lparr>broadcasts := (broadcasts s)(c_broadcast_id chunk \<mapsto> broadcast_new chunk)\<rparr>))"

text \<open>The merge itself, once the caps have let the chunk pass.\<close>

definition merge_into ::
  "blobs_available_accumulator \<Rightarrow> blobs_available_chunk \<Rightarrow> merge_outcome \<times> blobs_available_accumulator" where
  "merge_into s chunk =
     (let broadcast_id = c_broadcast_id chunk in
      case ensure_broadcast chunk s of (acc, s) \<Rightarrow>
      case merge acc chunk of
        (Inl reason, _) \<Rightarrow>
          (Dropped, remove_broadcast broadcast_id
            (count_drop (if reason = SequenceExceedsMax then dropped_sequence_cap_update
                         else dropped_validation_other_update) s))
      | (Inr is_terminal, acc') \<Rightarrow>
          let s = s\<lparr>broadcasts := (broadcasts s)(broadcast_id \<mapsto> acc'),
                    total_accumulated :=
                      total_accumulated s + (accumulated_entries acc' - accumulated_entries acc)\<rparr>
          in if \<not> is_terminal then (Accepted None, s)
             else
               let s = remove_broadcast broadcast_id s
               in if a_header_scalars acc' = None then
                    (Dropped, count_drop dropped_missing_chunk_zero_update s)
                  else if \<not> sequences_contiguous acc' then
                    (Dropped, count_drop dropped_incomplete_sequence_update s)
                  else (Accepted (Some (assemble acc')), s))"

definition merge_chunk_outcome ::
  "blobs_available_accumulator \<Rightarrow> blobs_available_chunk \<Rightarrow> merge_outcome \<times> blobs_available_accumulator" where
  "merge_chunk_outcome s chunk =
     (let broadcast_id = c_broadcast_id chunk;
          in_chunk = entries_in_chunk chunk
      in if c_worker_instance_token chunk = 0 then (Dropped, count_drop dropped_token_zero_update s)
         else if MAX_ENTRIES_PER_CHUNK < in_chunk then (Dropped, count_drop dropped_per_chunk_entries_cap_update s)
         else if broadcasts s broadcast_id = None \<and> MAX_INFLIGHT_BROADCASTS_PER_CONN \<le> card (dom (broadcasts s)) then
           (Dropped, count_drop dropped_per_conn_broadcasts_cap_update s)
         else if MAX_ACCUMULATED_ENTRIES_PER_CONN < total_accumulated s + in_chunk then
           (Dropped, remove_broadcast broadcast_id (count_drop dropped_per_conn_entries_cap_update s))
         else merge_into s chunk)"

definition merge_chunk ::
  "blobs_available_accumulator \<Rightarrow> blobs_available_chunk \<Rightarrow>
    blobs_available_notification option \<times> blobs_available_accumulator" where
  "merge_chunk s chunk =
     (case merge_chunk_outcome s chunk of
        (Accepted notification, s') \<Rightarrow> (notification, s')
      | (Dropped, s') \<Rightarrow> (None, s'))"

definition drop_all_inflight :: "blobs_available_accumulator \<Rightarrow> blobs_available_accumulator" where
  "drop_all_inflight s = s\<lparr>broadcasts := Map.empty, total_accumulated := 0\<rparr>"

section \<open>The bitsets\<close>

definition seen :: "broadcast_accumulator \<Rightarrow> nat set" where
  "seen a = {i. i < 128 \<and> bit (seen_sequences_lo a) i} \<union> {i. 128 \<le> i \<and> i < 256 \<and> bit (seen_sequences_hi a) (i - 128)}"

lemma sequence_less_256: "q < MAX_SEQUENCES \<longleftrightarrow> unat q < 256"
  by (simp add: MAX_SEQUENCES_def word_less_nat_alt)

lemma sequence_less_128: "(q :: u32) < 128 \<longleftrightarrow> unat q < 128"
  by (simp add: word_less_nat_alt)

lemma bit_lo_iff: "bit (bit_lo q) i \<longleftrightarrow> i < 128 \<and> i = unat q"
  by (auto simp: bit_lo_def sequence_less_128 bit_exp_iff)

lemma bit_hi_iff: "unat q < 256 \<Longrightarrow> bit (bit_hi q) i \<longleftrightarrow> 128 \<le> unat q \<and> i = unat q - 128"
  by (auto simp: bit_hi_def bit_exp_iff not_less [symmetric] sequence_less_128 unat_sub
      word_le_nat_alt)

lemma word_neq_0_bit: "(w :: u128) \<noteq> 0 \<longleftrightarrow> (\<exists>i < 128. bit w i)"
  by (auto simp: bit_eq_iff dest: bit_imp_le_length)

lemma already_seen_iff:
  assumes "unat q < 256"
  shows "(seen_sequences_lo a AND bit_lo q \<noteq> 0 \<or> seen_sequences_hi a AND bit_hi q \<noteq> 0) \<longleftrightarrow> unat q \<in> seen a"
  using assms by (auto simp: word_neq_0_bit bit_and_iff bit_lo_iff bit_hi_iff seen_def)

lemma seen_insert:
  assumes "unat q < 256"
  shows "seen (a\<lparr>seen_sequences_lo := seen_sequences_lo a OR bit_lo q,
                 seen_sequences_hi := seen_sequences_hi a OR bit_hi q\<rparr>) = insert (unat q) (seen a)"
  using assms by (auto simp: seen_def bit_or_iff bit_lo_iff bit_hi_iff)

lemma seen_new [simp]: "seen (broadcast_new c) = {}"
  by (simp add: seen_def broadcast_new_def)

lemma seen_cong:
  "seen_sequences_lo a = seen_sequences_lo b \<Longrightarrow> seen_sequences_hi a = seen_sequences_hi b \<Longrightarrow> seen a = seen b"
  by (simp add: seen_def)

lemma low_mask: "push_bit n 1 - 1 = (mask n :: u128)"
  by (simp add: mask_eq_exp_minus_1 push_bit_eq_mult)

lemma eq_mask_iff: "n \<le> 128 \<Longrightarrow> w = (mask n :: u128) \<longleftrightarrow> (\<forall>i < 128. bit w i \<longleftrightarrow> i < n)"
  by (auto simp: bit_eq_iff bit_mask_iff)

lemma all_ones: "(- 1 :: u128) = mask 128"
  by (simp add: bit_eq_iff bit_mask_iff)

lemma expected_mask: "n \<le> 128 \<Longrightarrow> (if n = 128 then - 1 else push_bit n 1 - 1) = (mask n :: u128)"
  by (simp only: low_mask all_ones split: if_split) blast

lemma seen_eq_iff:
  "seen a = {..<n} \<longleftrightarrow>
    n \<le> 256 \<and> (\<forall>i < 128. bit (seen_sequences_lo a) i \<longleftrightarrow> i < n) \<and> (\<forall>i < 128. bit (seen_sequences_hi a) i \<longleftrightarrow> i + 128 < n)"
proof
  assume eq: "seen a = {..<n}"
  have "n \<le> 256"
  proof (rule ccontr)
    assume "\<not> n \<le> 256"
    then have "256 \<in> seen a" by (simp add: eq)
    then show False by (simp add: seen_def)
  qed
  moreover have "bit (seen_sequences_lo a) i \<longleftrightarrow> i < n" if "i < 128" for i
    using that eq [unfolded set_eq_iff, rule_format, of i] by (simp add: seen_def)
  moreover have "bit (seen_sequences_hi a) i \<longleftrightarrow> i + 128 < n" if "i < 128" for i
    using that eq [unfolded set_eq_iff, rule_format, of "i + 128"] by (simp add: seen_def)
  ultimately show "n \<le> 256 \<and> (\<forall>i < 128. bit (seen_sequences_lo a) i \<longleftrightarrow> i < n) \<and>
    (\<forall>i < 128. bit (seen_sequences_hi a) i \<longleftrightarrow> i + 128 < n)" by simp
next
  assume "n \<le> 256 \<and> (\<forall>i < 128. bit (seen_sequences_lo a) i \<longleftrightarrow> i < n) \<and>
    (\<forall>i < 128. bit (seen_sequences_hi a) i \<longleftrightarrow> i + 128 < n)"
  then have n: "n \<le> 256" and lo: "i < 128 \<Longrightarrow> bit (seen_sequences_lo a) i \<longleftrightarrow> i < n"
    and hi: "i < 128 \<Longrightarrow> bit (seen_sequences_hi a) i \<longleftrightarrow> i + 128 < n" for i by simp_all
  show "seen a = {..<n}"
  proof (rule set_eqI)
    fix i :: nat
    consider "i < 128" | "128 \<le> i" "i < 256" | "256 \<le> i" by linarith
    then show "i \<in> seen a \<longleftrightarrow> i \<in> {..<n}"
    proof cases
      case 1
      then show ?thesis using lo [of i] by (simp add: seen_def)
    next
      case 2
      then show ?thesis using hi [of "i - 128"] by (simp add: seen_def)
    next
      case 3
      then show ?thesis using n by (simp add: seen_def)
    qed
  qed
qed

lemma seen_mask_iff:
  assumes "n \<le> 256"
  shows "seen a = {..<n} \<longleftrightarrow>
    seen_sequences_lo a = mask (min n 128) \<and> seen_sequences_hi a = mask (n - 128)"
proof -
  have "(\<forall>i < 128. bit (seen_sequences_lo a) i \<longleftrightarrow> i < n) \<longleftrightarrow>
    (\<forall>i < 128. bit (seen_sequences_lo a) i \<longleftrightarrow> i < min n 128)"
    by (simp only: min_less_iff_conj) blast
  moreover have "min n 128 \<le> 128" "n - 128 \<le> 128" using assms by simp_all
  ultimately show ?thesis
    using assms by (simp only: seen_eq_iff eq_mask_iff less_diff_conv simp_thms)
qed

text \<open>The completeness gate: no sequence number up to the largest one is missing.\<close>

lemma sequences_contiguous_iff:
  "sequences_contiguous a \<longleftrightarrow> seen a = {..<Suc (unat (max_seen_sequence a))}"
proof -
  let ?n = "Suc (unat (max_seen_sequence a))"
  consider "?n \<le> 128" | "128 < ?n" "?n \<le> 256" | "256 < ?n" by linarith
  then show ?thesis
  proof cases
    case 1
    then have m: "min ?n 128 = ?n" "?n - 128 = 0" "?n \<le> 256" by simp_all
    show ?thesis
      unfolding sequences_contiguous_def Let_def Suc_eq_plus1 [symmetric] if_P [OF 1] expected_mask [OF 1]
      unfolding seen_mask_iff [OF m(3)] m(1,2) mask_0 ..
  next
    case 2
    then have m: "min ?n 128 = 128" "\<not> ?n \<le> 128" "?n - 128 \<le> 128" by simp_all
    show ?thesis
      unfolding sequences_contiguous_def Let_def Suc_eq_plus1 [symmetric] if_not_P [OF m(2)] if_P [OF 2(2)]
        expected_mask [OF m(3)]
      unfolding seen_mask_iff [OF 2(2)] m(1) all_ones ..
  next
    case 3
    then have "\<not> ?n \<le> 128" "\<not> ?n \<le> 256" by simp_all
    then show ?thesis
      unfolding sequences_contiguous_def Let_def Suc_eq_plus1 [symmetric] seen_eq_iff by (simp only: simp_thms if_False)
  qed
qed

section \<open>What a broadcast has gathered\<close>

definition body_of :: "chunk_sources \<Rightarrow> blobs_available_notification" where
  "body_of p =
     notification_default
       \<lparr>n_digest_infos := s_digests p, n_cached_directory_digests := s_cached_directory_digests p,
        n_pinned_mirror_entries := s_pinned_mirror_entries p, n_pinned_ac_mirror_entries := s_pinned_ac_mirror_entries p,
        n_evicted_digests := s_evicted_digests p, n_evicted_blob_infos := s_evicted_blob_infos p,
        n_added_subtree_digests := s_added_subtree_digests p, n_removed_subtree_digests := s_removed_subtree_digests p,
        n_pinned_mirror_digests := s_pinned_mirror_digests p\<rparr>"

lemma extend_body_of: "extend_body c (body_of p) = body_of (append_sources p (payload c))"
  by (simp add: extend_body_def body_of_def append_sources_def payload_def)

lemma body_of_none [simp]: "body_of no_sources = notification_default"
  by (simp add: body_of_def no_sources_def notification_default_def)

lemma entries_in_chunk_payload: "entries_in_chunk c = sources_size (payload c)"
  by (simp add: entries_in_chunk_def payload_def sources_size_def)

text \<open>The chunks that have gone into a broadcast, in the order of their arrival.\<close>

definition gathered :: "broadcast_accumulator \<Rightarrow> blobs_available_chunk list \<Rightarrow> bool" where
  "gathered a cs \<longleftrightarrow>
     (\<forall>c \<in> set cs. c_worker_instance_token c = a_worker_instance_token a \<and> c_store_id c = a_store_id a \<and>
        c_is_full_snapshot c = a_is_full_snapshot a \<and> unat (c_sequence c) < 256) \<and>
     distinct (map (unat \<circ> c_sequence) cs) \<and>
     seen a = (unat \<circ> c_sequence) ` set cs \<and>
     unat (max_seen_sequence a) = Max (insert 0 (seen a)) \<and>
     a_header_scalars a = map_option chunk_header (find (\<lambda>c. c_sequence c = 0) cs) \<and>
     a_body a = body_of (join_sources (map payload cs)) \<and>
     accumulated_entries a = sum_list (map entries_in_chunk cs)"

text \<open>What a chunk must be to join.\<close>

definition joins :: "broadcast_accumulator \<Rightarrow> blobs_available_chunk \<Rightarrow> bool" where
  "joins a c \<longleftrightarrow>
     c_worker_instance_token c = a_worker_instance_token a \<and> c_store_id c = a_store_id a \<and>
     c_is_full_snapshot c = a_is_full_snapshot a \<and> unat (c_sequence c) < 256 \<and> unat (c_sequence c) \<notin> seen a"

lemma gathered_new: "gathered (broadcast_new c) []"
  by (simp add: gathered_def) (simp add: broadcast_new_def)

lemma seen_finite [simp]: "finite (seen a)"
proof -
  have "seen a \<subseteq> {..<256}" by (auto simp: seen_def)
  then show ?thesis by (rule finite_subset) simp
qed

lemma find_snoc: "find P (xs @ [x]) = (case find P xs of None \<Rightarrow> if P x then Some x else None | Some y \<Rightarrow> Some y)"
  by (induction xs) auto

lemma merge_joins:
  assumes "joins a c"
  shows "merge a c =
    (Inr (c_is_last c),
     a\<lparr>seen_sequences_lo := seen_sequences_lo a OR bit_lo (c_sequence c),
       seen_sequences_hi := seen_sequences_hi a OR bit_hi (c_sequence c),
       max_seen_sequence := (if max_seen_sequence a < c_sequence c then c_sequence c else max_seen_sequence a),
       a_header_scalars := (if c_sequence c = 0 then Some (chunk_header c) else a_header_scalars a),
       accumulated_entries := accumulated_entries a + entries_in_chunk c,
       a_body := extend_body c (a_body a)\<rparr>)"
proof -
  have "unat (c_sequence c) < 256" "unat (c_sequence c) \<notin> seen a" using assms by (simp_all add: joins_def)
  then have "\<not> (seen_sequences_lo a AND bit_lo (c_sequence c) \<noteq> 0 \<or> seen_sequences_hi a AND bit_hi (c_sequence c) \<noteq> 0)"
    "\<not> MAX_SEQUENCES \<le> c_sequence c"
    by (simp_all only: already_seen_iff not_le sequence_less_256) simp
  then show ?thesis using assms by (simp add: merge_def joins_def Let_def)
qed

lemma merge_refuses:
  assumes "\<not> joins a c"
  shows "\<exists>e. merge a c = (Inl e, a)"
proof -
  have "MAX_SEQUENCES \<le> c_sequence c \<longleftrightarrow> \<not> unat (c_sequence c) < 256"
    by (simp only: not_less [symmetric] sequence_less_256 [symmetric] simp_thms)
  then show ?thesis
    using assms already_seen_iff [of "c_sequence c" a]
    by (cases "unat (c_sequence c) < 256"; cases "unat (c_sequence c) \<in> seen a")
      (simp_all add: merge_def joins_def Let_def split: if_split)
qed

lemma merge_gathered:
  assumes "gathered a cs" "joins a c"
  shows "gathered (snd (merge a c)) (cs @ [c])"
proof -
  let ?a = "snd (merge a c)"
  have fields: "a_worker_instance_token ?a = a_worker_instance_token a" "a_store_id ?a = a_store_id a"
    "a_is_full_snapshot ?a = a_is_full_snapshot a" by (simp_all add: merge_joins [OF assms(2)])
  have q: "unat (c_sequence c) < 256" "unat (c_sequence c) \<notin> seen a"
    using assms(2) by (simp_all add: joins_def)
  have seen: "seen ?a = insert (unat (c_sequence c)) (seen a)"
    unfolding seen_insert [OF q(1), symmetric]
    by (rule seen_cong) (simp_all add: merge_joins [OF assms(2)])
  have "unat (max_seen_sequence ?a) = max (unat (c_sequence c)) (unat (max_seen_sequence a))"
    by (simp add: merge_joins [OF assms(2)] word_less_nat_alt)
  also have "\<dots> = Max (insert 0 (seen ?a))"
    using assms(1) by (simp add: gathered_def seen insert_commute [of 0])
  finally have max: "unat (max_seen_sequence ?a) = Max (insert 0 (seen ?a))" .
  have "unat (c_sequence c') \<in> seen a" if "c' \<in> set cs" for c'
    using that assms(1) by (simp add: gathered_def)
  then have "c_sequence c' \<noteq> 0" if "c_sequence c = 0" "c' \<in> set cs" for c'
    using that q(2) by metis
  then have "find (\<lambda>c. c_sequence c = 0) cs = None" if "c_sequence c = 0"
    using that by (auto simp: find_None_iff)
  then have header: "a_header_scalars ?a = map_option chunk_header (find (\<lambda>c. c_sequence c = 0) (cs @ [c]))"
    using assms(1) by (auto simp: gathered_def merge_joins [OF assms(2)] find_snoc split: option.split)
  have body: "a_body ?a = body_of (join_sources (map payload (cs @ [c])))"
    "accumulated_entries ?a = sum_list (map entries_in_chunk (cs @ [c]))"
    using assms(1) by (simp_all add: gathered_def merge_joins [OF assms(2)] extend_body_of)
  have members: "\<forall>c' \<in> set (cs @ [c]). c_worker_instance_token c' = a_worker_instance_token ?a \<and>
    c_store_id c' = a_store_id ?a \<and> c_is_full_snapshot c' = a_is_full_snapshot ?a \<and> unat (c_sequence c') < 256"
    using assms unfolding gathered_def joins_def fields by simp
  have old: "seen a = (unat \<circ> c_sequence) ` set cs" "distinct (map (unat \<circ> c_sequence) cs)"
    using assms(1) unfolding gathered_def by blast+
  then have new: "distinct (map (unat \<circ> c_sequence) (cs @ [c]))" "seen ?a = (unat \<circ> c_sequence) ` set (cs @ [c])"
    using q(2) unfolding seen by simp_all
  show ?thesis
    unfolding gathered_def by (intro conjI members new max header body)
qed

lemma inj_unat32: "inj (unat :: u32 \<Rightarrow> nat)"
  by (rule injI) (rule unsigned_word_eqI)

lemma gathered_joins_iff:
  assumes "gathered a cs" "cs \<noteq> []"
  shows "joins a c \<longleftrightarrow>
    c_worker_instance_token c = c_worker_instance_token (hd cs) \<and> c_store_id c = c_store_id (hd cs) \<and>
    c_is_full_snapshot c = c_is_full_snapshot (hd cs) \<and> unat (c_sequence c) < 256 \<and> c_sequence c \<notin> c_sequence ` set cs"
proof -
  have "hd cs \<in> set cs" using assms(2) by simp
  then have hd: "c_worker_instance_token (hd cs) = a_worker_instance_token a" "c_store_id (hd cs) = a_store_id a"
    "c_is_full_snapshot (hd cs) = a_is_full_snapshot a"
    using assms(1) unfolding gathered_def by blast+
  have seen: "seen a = unat ` c_sequence ` set cs" using assms(1) unfolding gathered_def image_comp by blast
  show ?thesis unfolding joins_def hd seen inj_image_mem_iff [OF inj_unat32] ..
qed

lemma gathered_contiguous:
  assumes "gathered a cs" "cs \<noteq> []"
  shows "sequences_contiguous a \<longleftrightarrow> (unat \<circ> c_sequence) ` set cs = {..<length cs}"
proof -
  have seen: "seen a = (unat \<circ> c_sequence) ` set cs" and "distinct (map (unat \<circ> c_sequence) cs)"
    using assms(1) by (simp_all add: gathered_def)
  then have card: "card (seen a) = length cs"
    using distinct_card [of "map (unat \<circ> c_sequence) cs"] by simp
  have max: "unat (max_seen_sequence a) = Max (insert 0 (seen a))" using assms(1) by (simp add: gathered_def)
  show ?thesis
    unfolding sequences_contiguous_iff seen [symmetric]
  proof
    assume "seen a = {..<Suc (unat (max_seen_sequence a))}"
    then show "seen a = {..<length cs}" using card by simp
  next
    assume eq: "seen a = {..<length cs}"
    obtain k where k: "length cs = Suc k" using assms(2) by (cases "length cs") auto
    have "Max (insert 0 {..<Suc k}) = k" by (rule Max_eqI) auto
    then show "seen a = {..<Suc (unat (max_seen_sequence a))}" by (simp only: max eq k)
  qed
qed

section \<open>The invariant of a connection\<close>

definition entries_of :: "(u64 \<rightharpoonup> broadcast_accumulator) \<Rightarrow> nat" where
  "entries_of m = (\<Sum>b \<in> dom m. accumulated_entries (the (m b)))"

lemma entries_of_upd:
  assumes "finite (dom m)"
  shows "entries_of (m(b \<mapsto> a)) = entries_of (m(b := None)) + accumulated_entries a"
proof -
  have d: "dom (m(b \<mapsto> a)) = insert b (dom m - {b})" "dom (m(b := None)) = dom m - {b}" by auto
  have rest: "(\<Sum>x \<in> dom m - {b}. accumulated_entries (the ((m(b \<mapsto> a)) x))) =
    (\<Sum>x \<in> dom m - {b}. accumulated_entries (the ((m(b := None)) x)))" by (rule sum.cong) auto
  have "finite (dom m - {b})" "b \<notin> dom m - {b}" using assms by simp_all
  then show ?thesis unfolding entries_of_def d by (subst sum.insert) (simp_all add: rest add.commute)
qed

lemma entries_of_split:
  "finite (dom m) \<Longrightarrow> m b = Some a \<Longrightarrow> entries_of m = entries_of (m(b := None)) + accumulated_entries a"
  using entries_of_upd [of m b a] by (simp add: map_upd_triv)

lemma entries_of_empty [simp]: "entries_of Map.empty = 0"
  by (simp add: entries_of_def)

text \<open>A broadcast in flight is made of chunks of the past, none of them terminal.\<close>

definition in_flight :: "blobs_available_chunk list \<Rightarrow> u64 \<Rightarrow> blobs_available_chunk list \<Rightarrow> bool" where
  "in_flight hist b cs \<longleftrightarrow>
     subseq cs hist \<and> (\<forall>c \<in> set cs. c_broadcast_id c = b \<and> c_worker_instance_token c \<noteq> 0 \<and> \<not> c_is_last c)"

definition conn_inv :: "blobs_available_chunk list \<Rightarrow> blobs_available_accumulator \<Rightarrow> bool" where
  "conn_inv hist s \<longleftrightarrow>
     finite (dom (broadcasts s)) \<and> card (dom (broadcasts s)) \<le> MAX_INFLIGHT_BROADCASTS_PER_CONN \<and>
     total_accumulated s = entries_of (broadcasts s) \<and> total_accumulated s \<le> MAX_ACCUMULATED_ENTRIES_PER_CONN \<and>
     (\<forall>b a. broadcasts s b = Some a \<longrightarrow> (\<exists>cs. cs \<noteq> [] \<and> in_flight hist b cs \<and> gathered a cs))"

lemma conn_invD [inv_dests]:
  assumes "conn_inv hist s"
  shows "finite (dom (broadcasts s))" "card (dom (broadcasts s)) \<le> MAX_INFLIGHT_BROADCASTS_PER_CONN"
    "total_accumulated s = entries_of (broadcasts s)" "entries_of (broadcasts s) \<le> MAX_ACCUMULATED_ENTRIES_PER_CONN"
  using assms by (simp_all add: conn_inv_def)

lemma conn_inv_in_flight:
  "conn_inv hist s \<Longrightarrow> broadcasts s b = Some a \<Longrightarrow> \<exists>cs. cs \<noteq> [] \<and> in_flight hist b cs \<and> gathered a cs"
  by (simp add: conn_inv_def)

lemma in_flight_more: "in_flight hist b cs \<Longrightarrow> in_flight (hist @ xs) b cs"
  by (auto simp: in_flight_def intro: subseq_order.trans)

lemma in_flight_snoc:
  "in_flight hist b cs \<Longrightarrow> c_broadcast_id c = b \<Longrightarrow> c_worker_instance_token c \<noteq> 0 \<Longrightarrow> \<not> c_is_last c \<Longrightarrow>
    in_flight (hist @ [c]) b (cs @ [c])"
  by (auto simp: in_flight_def intro: list_emb_append_mono)

lemma conn_inv_new [inv_intros]: "conn_inv [] (accumulator_new_with_drop_counts k)"
  by (simp add: conn_inv_def accumulator_new_with_drop_counts_def)

lemma conn_inv_more: "conn_inv hist s \<Longrightarrow> conn_inv (hist @ xs) s"
  unfolding conn_inv_def using in_flight_more by blast

lemma count_drop_sel [simp]: "broadcasts (count_drop f s) = broadcasts s" "total_accumulated (count_drop f s) = total_accumulated s"
  by (simp_all add: count_drop_def)

lemma conn_inv_count_drop [simp]: "conn_inv hist (count_drop f s) \<longleftrightarrow> conn_inv hist s"
  by (simp add: conn_inv_def)

lemma remove_broadcast_sel:
  assumes "finite (dom (broadcasts s))" "total_accumulated s = entries_of (broadcasts s)"
  shows "broadcasts (remove_broadcast b s) = (broadcasts s)(b := None)"
    "total_accumulated (remove_broadcast b s) = entries_of ((broadcasts s)(b := None))"
proof -
  have "broadcasts (remove_broadcast b s) = (broadcasts s)(b := None) \<and>
    total_accumulated (remove_broadcast b s) = entries_of ((broadcasts s)(b := None))"
  proof (cases "broadcasts s b")
    case None
    then have "(broadcasts s)(b := None) = broadcasts s" by (rule fun_upd_idem)
    then show ?thesis using None assms(2) by (simp add: remove_broadcast_def del: fun_upd_apply)
  next
    case (Some a)
    show ?thesis
      using Some assms(2) entries_of_split [OF assms(1) Some] by (simp add: remove_broadcast_def del: fun_upd_apply)
  qed
  then show "broadcasts (remove_broadcast b s) = (broadcasts s)(b := None)"
    "total_accumulated (remove_broadcast b s) = entries_of ((broadcasts s)(b := None))" by simp_all
qed

lemma conn_inv_shrink:
  assumes "conn_inv hist s" "broadcasts s' = (broadcasts s)(b := None)"
    "total_accumulated s' = entries_of ((broadcasts s)(b := None))"
  shows "conn_inv hist s'"
proof -
  have "card (dom (broadcasts s) - {b}) \<le> card (dom (broadcasts s))"
    using conn_invD(1) [OF assms(1)] by (intro card_mono) auto
  moreover have "entries_of ((broadcasts s)(b := None)) \<le> entries_of (broadcasts s)"
    using entries_of_split [OF conn_invD(1) [OF assms(1)]] by (cases "broadcasts s b") (simp_all add: fun_upd_idem)
  ultimately show ?thesis
    using assms unfolding conn_inv_def by (auto intro: order_trans)
qed

lemma conn_inv_set:
  assumes "conn_inv hist s" "broadcasts s b \<noteq> None \<or> card (dom (broadcasts s)) < MAX_INFLIGHT_BROADCASTS_PER_CONN"
    and "cs \<noteq> []" "in_flight hist b cs" "gathered a cs"
    and "entries_of ((broadcasts s)(b := None)) + accumulated_entries a \<le> MAX_ACCUMULATED_ENTRIES_PER_CONN"
    and "broadcasts s' = (broadcasts s)(b \<mapsto> a)"
    and "total_accumulated s' = entries_of ((broadcasts s)(b := None)) + accumulated_entries a"
  shows "conn_inv hist s'"
proof -
  note fin = conn_invD(1) [OF assms(1)]
  have "card (dom ((broadcasts s)(b \<mapsto> a))) \<le> MAX_INFLIGHT_BROADCASTS_PER_CONN"
    using assms(2) conn_invD(2) [OF assms(1)] fin
    by (cases "b \<in> dom (broadcasts s)") (auto simp: insert_absorb card_insert_if)
  moreover have "\<exists>cs. cs \<noteq> [] \<and> in_flight hist x cs \<and> gathered y cs" if "((broadcasts s)(b \<mapsto> a)) x = Some y" for x y
    using that assms(3-5) conn_inv_in_flight [OF assms(1), of x y] by (cases "x = b") auto
  ultimately show ?thesis
    using assms(6) fin unfolding conn_inv_def assms(7,8) entries_of_upd [OF fin] by simp
qed

end
