(* ===== verification/Blobs_Broadcast.thy ===== *)
theory Blobs_Broadcast
  imports Blobs_Accumulator
begin

text \<open>
  A broadcast from the worker's chunker to the server's accumulator: what each chunk does to a
  connection, the invariant over all sequences of chunks, and the notification that comes out.
\<close>

section \<open>One chunk\<close>

definition core :: "(u64 \<rightharpoonup> broadcast_accumulator) \<Rightarrow> blobs_available_accumulator \<Rightarrow> bool" where
  "core m s \<longleftrightarrow> broadcasts s = m \<and> total_accumulated s = entries_of m"

lemma core_count_drop [simp]: "core m (count_drop f s) \<longleftrightarrow> core m s"
  by (simp add: core_def)

lemma conn_inv_core: "conn_inv hist s \<Longrightarrow> core (broadcasts s) s"
  by (simp add: core_def conn_invD)

lemma core_remove:
  assumes "core m s" "finite (dom m)"
  shows "core (m(b := None)) (remove_broadcast b s)"
proof -
  have "finite (dom (broadcasts s))" "total_accumulated s = entries_of (broadcasts s)"
    using assms by (simp_all add: core_def)
  then show ?thesis
    using assms(1) remove_broadcast_sel [of s b] by (simp add: core_def del: fun_upd_apply)
qed

lemma ensure_broadcast_spec:
  assumes "conn_inv hist s" "ensure_broadcast c s = (acc, s1)"
  shows "core ((broadcasts s)(c_broadcast_id c \<mapsto> acc)) s1"
    and "broadcasts s (c_broadcast_id c) = Some acc \<and> a_worker_instance_token acc = c_worker_instance_token c \<or>
      acc = broadcast_new c"
proof -
  note fin = conn_invD(1) [OF assms(1)] and total = conn_invD(3) [OF assms(1)]
  have new: "accumulated_entries (broadcast_new c) = 0" by (simp add: broadcast_new_def)
  let ?b = "c_broadcast_id c"
  have "core ((broadcasts s)(?b \<mapsto> acc)) s1 \<and>
    (broadcasts s ?b = Some acc \<and> a_worker_instance_token acc = c_worker_instance_token c \<or> acc = broadcast_new c)"
  proof (cases "broadcasts s ?b")
    case None
    then have "(broadcasts s)(?b := None) = broadcasts s" by (rule fun_upd_idem)
    then show ?thesis
      using None assms(2) total new
      by (auto simp: ensure_broadcast_def core_def entries_of_upd [OF fin] simp del: fun_upd_apply)
  next
    case (Some a)
    then have same: "(broadcasts s)(?b \<mapsto> a) = broadcasts s" by (rule map_upd_triv)
    show ?thesis
    proof (cases "a_worker_instance_token a = c_worker_instance_token c")
      case True
      then show ?thesis
        using Some assms(2) total same by (auto simp: ensure_broadcast_def core_def simp del: fun_upd_apply)
    next
      case False
      then show ?thesis
        using Some assms(2) total new entries_of_split [OF fin Some]
        by (auto simp: ensure_broadcast_def core_def entries_of_upd [OF fin] simp del: fun_upd_apply)
    qed
  qed
  then show "core ((broadcasts s)(?b \<mapsto> acc)) s1"
    "broadcasts s ?b = Some acc \<and> a_worker_instance_token acc = c_worker_instance_token c \<or> acc = broadcast_new c"
    by simp_all
qed

lemma merge_into_refused:
  assumes "conn_inv hist s" "ensure_broadcast c s = (acc, s1)" "\<not> joins acc c"
  shows "fst (merge_into s c) = Dropped"
    "core ((broadcasts s)(c_broadcast_id c := None)) (snd (merge_into s c))"
proof -
  obtain e where e: "merge acc c = (Inl e, acc)" using merge_refuses [OF assms(3)] by blast
  have fin: "finite (dom ((broadcasts s)(c_broadcast_id c \<mapsto> acc)))"
    using conn_invD(1) [OF assms(1)] by simp
  show "fst (merge_into s c) = Dropped" by (simp add: merge_into_def assms(2) e Let_def)
  have "core ((broadcasts s)(c_broadcast_id c := None)) (remove_broadcast (c_broadcast_id c) (count_drop f s1))" for f
    using core_remove [of "(broadcasts s)(c_broadcast_id c \<mapsto> acc)" "count_drop f s1" "c_broadcast_id c"]
      ensure_broadcast_spec(1) [OF assms(1,2)] fin by (simp only: core_count_drop fun_upd_upd simp_thms)
  then show "core ((broadcasts s)(c_broadcast_id c := None)) (snd (merge_into s c))"
    by (simp add: merge_into_def assms(2) e Let_def del: fun_upd_apply)
qed

definition complete :: "blobs_available_chunk list \<Rightarrow> bool" where
  "complete cs \<longleftrightarrow> (unat \<circ> c_sequence) ` set cs = {..<length cs}"

lemma complete_header:
  assumes "gathered a cs" "complete cs" "cs \<noteq> []"
  shows "a_header_scalars a \<noteq> None"
proof -
  have "0 \<in> (unat \<circ> c_sequence) ` set cs" using assms(2,3) by (simp add: complete_def)
  then obtain c where "c \<in> set cs" "c_sequence c = 0" by (auto simp: unat_eq_0)
  then have "find (\<lambda>c. c_sequence c = 0) cs \<noteq> None" by (auto simp: find_None_iff)
  then show ?thesis using assms(1) by (simp add: gathered_def)
qed

lemma merge_into_joined:
  assumes inv: "conn_inv hist s" and ens: "ensure_broadcast c s = (acc, s1)"
    and g: "gathered acc cs" and j: "joins acc c"
  defines "a \<equiv> snd (merge acc c)"
  shows "gathered a (cs @ [c])" "accumulated_entries a = accumulated_entries acc + entries_in_chunk c"
    "fst (merge_into s c) =
      (if \<not> c_is_last c then Accepted None else if complete (cs @ [c]) then Accepted (Some (assemble a)) else Dropped)"
    "core ((broadcasts s)(c_broadcast_id c := (if c_is_last c then None else Some a))) (snd (merge_into s c))"
proof -
  let ?b = "c_broadcast_id c" and ?m = "broadcasts s"
  note fin = conn_invD(1) [OF inv]
  show ga: "gathered a (cs @ [c])" unfolding a_def by (rule merge_gathered [OF g j])
  have m: "merge acc c = (Inr (c_is_last c), a)" unfolding a_def by (simp add: merge_joins [OF j])
  show acc: "accumulated_entries a = accumulated_entries acc + entries_in_chunk c"
    unfolding a_def by (simp add: merge_joins [OF j])
  have "sequences_contiguous a \<longleftrightarrow> complete (cs @ [c])"
    using gathered_contiguous [OF ga] by (simp add: complete_def)
  then show "fst (merge_into s c) =
      (if \<not> c_is_last c then Accepted None else if complete (cs @ [c]) then Accepted (Some (assemble a)) else Dropped)"
    using complete_header [OF ga] by (auto simp: merge_into_def ens m Let_def)
  define s2 where "s2 = s1\<lparr>broadcasts := (broadcasts s1)(?b \<mapsto> a),
    total_accumulated := total_accumulated s1 + (accumulated_entries a - accumulated_entries acc)\<rparr>"
  have s1: "broadcasts s1 = ?m(?b \<mapsto> acc)" "total_accumulated s1 = entries_of (?m(?b := None)) + accumulated_entries acc"
    using ensure_broadcast_spec(1) [OF inv ens] by (simp_all only: core_def entries_of_upd [OF fin])
  have s2: "core (?m(?b \<mapsto> a)) s2"
    by (simp add: core_def s2_def s1 acc entries_of_upd [OF fin] del: fun_upd_apply)
  have "core ((?m(?b \<mapsto> a))(?b := None)) (remove_broadcast ?b s2)"
    by (rule core_remove [OF s2]) (simp add: fin)
  then have s3: "core (?m(?b := None)) (remove_broadcast ?b s2)" by (simp only: fun_upd_upd)
  show "core (?m(?b := (if c_is_last c then None else Some a))) (snd (merge_into s c))"
  proof (cases "c_is_last c")
    case True
    then show ?thesis
      using s3 by (simp add: merge_into_def ens m Let_def s2_def del: fun_upd_apply)
  next
    case False
    then show ?thesis
      using s2 by (simp add: merge_into_def ens m Let_def s2_def del: fun_upd_apply)
  qed
qed

section \<open>All sequences of events on a connection\<close>

lemma ensure_gathered:
  assumes "conn_inv hist s" "ensure_broadcast c s = (acc, s1)"
  shows "\<exists>cs. gathered acc cs \<and> in_flight hist (c_broadcast_id c) cs \<and>
    accumulated_entries acc + entries_of ((broadcasts s)(c_broadcast_id c := None)) \<le> total_accumulated s"
proof (cases "broadcasts s (c_broadcast_id c) = Some acc \<and> a_worker_instance_token acc = c_worker_instance_token c")
  case True
  then show ?thesis
    using conn_inv_in_flight [OF assms(1), of "c_broadcast_id c" acc]
      entries_of_split [OF conn_invD(1) [OF assms(1)], of "c_broadcast_id c" acc] conn_invD(3) [OF assms(1)] by auto
next
  case False
  then have new: "acc = broadcast_new c" using ensure_broadcast_spec(2) [OF assms] by blast
  have "entries_of ((broadcasts s)(c_broadcast_id c := None)) \<le> entries_of (broadcasts s)"
    using entries_of_split [OF conn_invD(1) [OF assms(1)], of "c_broadcast_id c"]
    by (cases "broadcasts s (c_broadcast_id c)") (simp_all add: fun_upd_idem)
  moreover have "accumulated_entries acc = 0" by (simp add: new broadcast_new_def)
  moreover have "gathered acc []" by (simp add: new gathered_new)
  moreover have "in_flight hist (c_broadcast_id c) []" by (simp add: in_flight_def)
  ultimately show ?thesis using conn_invD(3) [OF assms(1)] by (intro exI [of _ "[]"]) simp
qed

lemma conn_inv_drop: "conn_inv hist s \<Longrightarrow> core ((broadcasts s)(b := None)) s' \<Longrightarrow> conn_inv hist s'"
  by (rule conn_inv_shrink) (simp_all only: core_def)

lemma merge_into_inv:
  assumes inv: "conn_inv hist s" and token: "c_worker_instance_token c \<noteq> 0"
    and room: "broadcasts s (c_broadcast_id c) \<noteq> None \<or> card (dom (broadcasts s)) < MAX_INFLIGHT_BROADCASTS_PER_CONN"
    and cap: "total_accumulated s + entries_in_chunk c \<le> MAX_ACCUMULATED_ENTRIES_PER_CONN"
  shows "conn_inv (hist @ [c]) (snd (merge_into s c))"
proof -
  obtain acc s1 where ens: "ensure_broadcast c s = (acc, s1)" by fastforce
  obtain cs where cs: "gathered acc cs" "in_flight hist (c_broadcast_id c) cs"
    "accumulated_entries acc + entries_of ((broadcasts s)(c_broadcast_id c := None)) \<le> total_accumulated s"
    using ensure_gathered [OF inv ens] by blast
  note inv' = conn_inv_more [OF inv, of "[c]"]
  show ?thesis
  proof (cases "joins acc c \<and> \<not> c_is_last c")
    case True
    then have j: "joins acc c" by simp
    note r = merge_into_joined [OF inv ens cs(1) j]
    have "core ((broadcasts s)(c_broadcast_id c \<mapsto> snd (merge acc c))) (snd (merge_into s c))"
      using r(4) True by (simp del: fun_upd_apply)
    then have s': "broadcasts (snd (merge_into s c)) = (broadcasts s)(c_broadcast_id c \<mapsto> snd (merge acc c))"
      "total_accumulated (snd (merge_into s c)) =
        entries_of ((broadcasts s)(c_broadcast_id c := None)) + accumulated_entries (snd (merge acc c))"
      by (simp_all only: core_def entries_of_upd [OF conn_invD(1) [OF inv]])
    have "cs @ [c] \<noteq> []" "in_flight (hist @ [c]) (c_broadcast_id c) (cs @ [c])"
      using in_flight_snoc [OF cs(2)] token True by simp_all
    then show ?thesis
      by (rule conn_inv_set [OF inv' room _ _ r(1) _ s']) (use r(2) cs(3) cap in simp)
  next
    case False
    have "core ((broadcasts s)(c_broadcast_id c := None)) (snd (merge_into s c))"
      using False merge_into_joined(4) [OF inv ens cs(1)] merge_into_refused(2) [OF inv ens]
      by (cases "joins acc c") (simp_all del: fun_upd_apply)
    then show ?thesis by (rule conn_inv_drop [OF inv'])
  qed
qed

lemma merge_chunk_outcome_inv [inv_intros]:
  assumes "conn_inv hist s"
  shows "conn_inv (hist @ [c]) (snd (merge_chunk_outcome s c))"
proof -
  have "conn_inv (hist @ [c]) (remove_broadcast (c_broadcast_id c) (count_drop f s))" for f
    using core_remove [of "broadcasts s" "count_drop f s" "c_broadcast_id c"] conn_inv_core [OF assms] conn_invD(1) [OF assms]
    by (intro conn_inv_drop [OF conn_inv_more [OF assms]]) (simp del: fun_upd_apply)
  then show ?thesis
    using conn_inv_more [OF assms, of "[c]"] merge_into_inv [OF assms, of c]
    by (auto simp: merge_chunk_outcome_def Let_def not_less not_le)
qed

text \<open>The scalar fields of a notification, as a header.\<close>

definition notification_header :: "blobs_available_notification \<Rightarrow> header_scalars" where
  "notification_header n =
     \<lparr>h_worker_cas_endpoint = n_worker_cas_endpoint n, h_is_full_subtree_snapshot = n_is_full_subtree_snapshot n,
      h_cpu_load_pct = n_cpu_load_pct n, h_p_core_load_pct = n_p_core_load_pct n, h_e_core_load_pct = n_e_core_load_pct n,
      h_mirror_used_bytes = n_mirror_used_bytes n, h_mirror_max_bytes = n_mirror_max_bytes n,
      h_indefinite_pin_saturated = n_indefinite_pin_saturated n, h_swap_used_bytes = n_swap_used_bytes n,
      h_memory_pressure_level = n_memory_pressure_level n, h_memory_pressured = n_memory_pressured n,
      h_available_disk_bytes = n_available_disk_bytes n, h_disk_pressured = n_disk_pressured n,
      h_construct_latency_ms_p95 = n_construct_latency_ms_p95 n\<rparr>"

text \<open>The notification that a list of chunks amounts to.\<close>

definition put_together :: "blobs_available_chunk list \<Rightarrow> blobs_available_notification \<Rightarrow> bool" where
  "put_together cs n \<longleftrightarrow>
     sources_of n = join_sources (map payload cs) \<and> n_digests n = [] \<and>
     (\<forall>c \<in> set cs. c_is_full_snapshot c = n_is_full_snapshot n \<and>
        (c_sequence c = 0 \<longrightarrow> chunk_header c = notification_header n))"

lemma assemble_gathered:
  assumes "gathered a cs" "complete cs" "cs \<noteq> []"
  shows "put_together cs (assemble a)"
proof -
  obtain h where h: "a_header_scalars a = Some h" using complete_header [OF assms] by blast
  then have "map_option chunk_header (find (\<lambda>c. c_sequence c = 0) cs) = Some h"
    using assms(1) unfolding gathered_def by simp
  then obtain c0 where c0: "find (\<lambda>c. c_sequence c = 0) cs = Some c0" "h = chunk_header c0"
    by (auto simp: map_option_eq_Some)
  have only: "c = c0" if "c \<in> set cs" "c_sequence c = 0" for c
  proof -
    have "inj_on (unat \<circ> c_sequence) (set cs)" using assms(1) by (simp add: gathered_def distinct_map)
    moreover have "c0 \<in> set cs" "c_sequence c0 = 0" using c0(1) by (auto simp: find_Some_iff in_set_conv_nth)
    ultimately show ?thesis using that by (metis comp_apply inj_onD)
  qed
  have body: "a_body a = body_of (join_sources (map payload cs))"
    and flag: "\<forall>c \<in> set cs. c_is_full_snapshot c = a_is_full_snapshot a"
    using assms(1) unfolding gathered_def by blast+
  have "sources_of (assemble a) = join_sources (map payload cs)" "n_digests (assemble a) = []"
    "n_is_full_snapshot (assemble a) = a_is_full_snapshot a" "notification_header (assemble a) = h"
    by (simp_all add: assemble_def h body body_of_def sources_of_def notification_default_def notification_header_def)
  then show ?thesis using flag only c0(2) by (auto simp: put_together_def)
qed

lemma merge_chunk_outcome_commit:
  assumes "conn_inv hist s" "fst (merge_chunk_outcome s c) = Accepted (Some n)"
  shows "\<exists>a cs. in_flight hist (c_broadcast_id c) cs \<and> gathered a (cs @ [c]) \<and> complete (cs @ [c]) \<and>
    c_is_last c \<and> put_together (cs @ [c]) n"
proof -
  obtain acc s1 where ens: "ensure_broadcast c s = (acc, s1)" by fastforce
  obtain cs where cs: "gathered acc cs" "in_flight hist (c_broadcast_id c) cs"
    using ensure_gathered [OF assms(1) ens] by blast
  have into: "fst (merge_into s c) = Accepted (Some n)"
    using assms(2) by (auto simp: merge_chunk_outcome_def Let_def split: if_splits)
  then have j: "joins acc c" using merge_into_refused(1) [OF assms(1) ens] by fastforce
  note r = merge_into_joined [OF assms(1) ens cs(1) j]
  have "c_is_last c" "complete (cs @ [c])" "n = assemble (snd (merge acc c))"
    using into r(3) by (auto split: if_splits)
  then show ?thesis using cs(2) r(1) assemble_gathered [OF r(1)] by blast
qed

text \<open>A connection sees chunks; when the worker goes away its partial broadcasts are dropped.\<close>

datatype conn_event = ChunkArrives blobs_available_chunk | WorkerDisconnects

fun conn_step :: "blobs_available_accumulator \<Rightarrow> conn_event \<Rightarrow> merge_outcome option \<times> blobs_available_accumulator" where
  "conn_step s (ChunkArrives c) = (case merge_chunk_outcome s c of (r, s') \<Rightarrow> (Some r, s'))"
| "conn_step s WorkerDisconnects = (None, drop_all_inflight s)"

definition conn_run :: "blobs_available_accumulator \<Rightarrow> conn_event list \<Rightarrow> blobs_available_accumulator" where
  "conn_run s evs = fold (\<lambda>e s. snd (conn_step s e)) evs s"

fun arrivals :: "conn_event list \<Rightarrow> blobs_available_chunk list" where
  "arrivals [] = []"
| "arrivals (ChunkArrives c # evs) = c # arrivals evs"
| "arrivals (WorkerDisconnects # evs) = arrivals evs"

lemma arrivals_append [simp]: "arrivals (xs @ ys) = arrivals xs @ arrivals ys"
  by (induction xs rule: arrivals.induct) simp_all

lemma drop_all_inflight_inv [inv_intros]: "conn_inv hist s \<Longrightarrow> conn_inv hist (drop_all_inflight s)"
  by (simp add: conn_inv_def drop_all_inflight_def)

lemma conn_run_inv: "conn_inv (arrivals evs) (conn_run (accumulator_new_with_drop_counts k) evs)"
proof (induction evs rule: rev_induct)
  case Nil
  then show ?case by (simp add: conn_run_def conn_inv_new)
next
  case (snoc e evs)
  then show ?case
    by (cases e) (auto simp: conn_run_def case_prod_beta intro: merge_chunk_outcome_inv drop_all_inflight_inv)
qed

section \<open>A broadcast that arrives\<close>

text \<open>The chunks of a broadcast that a connection has, none if it does not know the broadcast.\<close>

definition has_gathered :: "blobs_available_accumulator \<Rightarrow> u64 \<Rightarrow> blobs_available_chunk list \<Rightarrow> bool" where
  "has_gathered s b cs \<longleftrightarrow>
     (case broadcasts s b of None \<Rightarrow> cs = [] | Some a \<Rightarrow> cs \<noteq> [] \<and> gathered a cs)"

definition of_broadcast :: "u64 \<Rightarrow> u64 \<Rightarrow> string \<Rightarrow> bool \<Rightarrow> blobs_available_chunk \<Rightarrow> bool" where
  "of_broadcast b t st full c \<longleftrightarrow>
     c_broadcast_id c = b \<and> c_worker_instance_token c = t \<and> c_store_id c = st \<and> c_is_full_snapshot c = full \<and>
     unat (c_sequence c) < 256 \<and> entries_in_chunk c \<le> MAX_ENTRIES_PER_CHUNK"

lemma receive_one:
  assumes inv: "conn_inv hist s" and cur: "has_gathered s b cs" and t: "t \<noteq> 0"
    and same: "\<forall>c' \<in> set (cs @ [c]). of_broadcast b t st full c'" and dist: "distinct (map c_sequence (cs @ [c]))"
    and room: "cs \<noteq> [] \<or> card (dom (broadcasts s)) < MAX_INFLIGHT_BROADCASTS_PER_CONN"
    and cap: "total_accumulated s + entries_in_chunk c \<le> MAX_ACCUMULATED_ENTRIES_PER_CONN"
  shows "\<exists>a. gathered a (cs @ [c]) \<and>
    fst (merge_chunk_outcome s c) =
      (if \<not> c_is_last c then Accepted None else if complete (cs @ [c]) then Accepted (Some (assemble a)) else Dropped) \<and>
    core ((broadcasts s)(b := (if c_is_last c then None else Some a))) (snd (merge_chunk_outcome s c)) \<and>
    entries_of ((broadcasts s)(b := None)) + accumulated_entries a = total_accumulated s + entries_in_chunk c"
proof -
  have c: "of_broadcast b t st full c" and b: "c_broadcast_id c = b" using same by (simp_all add: of_broadcast_def)
  obtain acc s1 where ens: "ensure_broadcast c s = (acc, s1)" by fastforce
  have g: "gathered acc cs \<and> joins acc c \<and>
    entries_of ((broadcasts s)(b := None)) + accumulated_entries acc = total_accumulated s"
  proof (cases "broadcasts s b")
    case None
    then have "cs = []" "acc = broadcast_new c" "(broadcasts s)(b := None) = broadcasts s"
      using cur ensure_broadcast_spec(2) [OF inv ens] b by (simp_all add: has_gathered_def fun_upd_idem)
    moreover have "joins (broadcast_new c) c" using c by (simp add: joins_def of_broadcast_def) (simp add: broadcast_new_def)
    ultimately show ?thesis
      using conn_invD(3) [OF inv] gathered_new [of c] by (simp add: broadcast_new_def del: fun_upd_apply)
  next
    case (Some a)
    then have a: "cs \<noteq> []" "gathered a cs" using cur by (simp_all add: has_gathered_def)
    have hd: "of_broadcast b t st full (hd cs)" using a(1) same by simp
    have "a_worker_instance_token a = t" using a hd unfolding gathered_def of_broadcast_def by (metis list.set_sel(1))
    then have "acc = a" using ens c b Some by (simp add: ensure_broadcast_def of_broadcast_def)
    moreover have "joins a c"
      unfolding gathered_joins_iff [OF a(2,1)] using hd c dist by (simp add: of_broadcast_def)
    ultimately show ?thesis
      using a(2) entries_of_split [OF conn_invD(1) [OF inv] Some] conn_invD(3) [OF inv] by (simp del: fun_upd_apply)
  qed
  have "broadcasts s b \<noteq> None" if "cs \<noteq> []" using that cur by (auto simp: has_gathered_def split: option.splits)
  then have into: "merge_chunk_outcome s c = merge_into s c"
    using room cap c t by (auto simp: merge_chunk_outcome_def Let_def of_broadcast_def)
  have j: "joins acc c" and gc: "gathered acc cs" using g by simp_all
  note r = merge_into_joined [OF inv ens gc j]
  show ?thesis
    unfolding into using r g b by (intro exI [of _ "snd (merge acc c)"]) (simp del: fun_upd_apply)
qed

text \<open>Chunk after chunk, with the outcomes.\<close>

fun merge_chunks ::
  "blobs_available_accumulator \<Rightarrow> blobs_available_chunk list \<Rightarrow> merge_outcome list \<times> blobs_available_accumulator" where
  "merge_chunks s [] = ([], s)"
| "merge_chunks s (c # cs) =
     (case merge_chunk_outcome s c of (r, s') \<Rightarrow>
      case merge_chunks s' cs of (rs, s'') \<Rightarrow> (r # rs, s''))"

lemma merge_chunks_append:
  "merge_chunks s (xs @ ys) =
    (fst (merge_chunks s xs) @ fst (merge_chunks (snd (merge_chunks s xs)) ys),
     snd (merge_chunks (snd (merge_chunks s xs)) ys))"
  by (induction xs arbitrary: s) (simp_all add: case_prod_beta)

definition payload_entries :: "blobs_available_chunk list \<Rightarrow> nat" where
  "payload_entries cs = sum_list (map entries_in_chunk cs)"

lemma payload_entries_simps [simp]:
  "payload_entries [] = 0" "payload_entries (c # cs) = entries_in_chunk c + payload_entries cs"
  "payload_entries (cs @ ds) = payload_entries cs + payload_entries ds"
  by (simp_all add: payload_entries_def)

lemma receive_many:
  assumes "conn_inv hist s" "has_gathered s b cs" "t \<noteq> 0"
    "\<forall>c \<in> set (cs @ ds). of_broadcast b t st full c" "distinct (map c_sequence (cs @ ds))" "\<forall>c \<in> set ds. \<not> c_is_last c"
    "cs \<noteq> [] \<or> card (dom (broadcasts s)) < MAX_INFLIGHT_BROADCASTS_PER_CONN"
    "total_accumulated s + payload_entries ds \<le> MAX_ACCUMULATED_ENTRIES_PER_CONN"
  shows "fst (merge_chunks s ds) = replicate (length ds) (Accepted None) \<and>
    conn_inv (hist @ ds) (snd (merge_chunks s ds)) \<and> has_gathered (snd (merge_chunks s ds)) b (cs @ ds) \<and>
    total_accumulated (snd (merge_chunks s ds)) = total_accumulated s + payload_entries ds \<and>
    (broadcasts (snd (merge_chunks s ds)))(b := None) = (broadcasts s)(b := None) \<and>
    (cs @ ds \<noteq> [] \<or> card (dom (broadcasts (snd (merge_chunks s ds)))) < MAX_INFLIGHT_BROADCASTS_PER_CONN)"
  using assms
proof (induction ds arbitrary: s cs hist)
  case Nil
  then show ?case by simp
next
  case (Cons c ds)
  let ?s = "snd (merge_chunk_outcome s c)"
  have one: "\<forall>c' \<in> set (cs @ [c]). of_broadcast b t st full c'" "distinct (map c_sequence (cs @ [c]))"
    "total_accumulated s + entries_in_chunk c \<le> MAX_ACCUMULATED_ENTRIES_PER_CONN" "\<not> c_is_last c"
    using Cons.prems by simp_all
  obtain a where a: "gathered a (cs @ [c])" "fst (merge_chunk_outcome s c) = Accepted None"
    "core ((broadcasts s)(b \<mapsto> a)) ?s"
    "entries_of ((broadcasts s)(b := None)) + accumulated_entries a = total_accumulated s + entries_in_chunk c"
    using receive_one [OF Cons.prems(1-3) one(1,2) Cons.prems(7) one(3)] one(4) by (auto simp del: fun_upd_apply)
  have s': "broadcasts ?s = (broadcasts s)(b \<mapsto> a)" "total_accumulated ?s = total_accumulated s + entries_in_chunk c"
    using a(3,4) by (simp_all only: core_def entries_of_upd [OF conn_invD(1) [OF Cons.prems(1)]])
  have prem: "has_gathered ?s b (cs @ [c])" "cs @ [c] \<noteq> []" using a(1) by (simp_all add: has_gathered_def s')
  have "fst (merge_chunks ?s ds) = replicate (length ds) (Accepted None) \<and>
    conn_inv ((hist @ [c]) @ ds) (snd (merge_chunks ?s ds)) \<and> has_gathered (snd (merge_chunks ?s ds)) b ((cs @ [c]) @ ds) \<and>
    total_accumulated (snd (merge_chunks ?s ds)) = total_accumulated ?s + payload_entries ds \<and>
    (broadcasts (snd (merge_chunks ?s ds)))(b := None) = (broadcasts ?s)(b := None) \<and>
    ((cs @ [c]) @ ds \<noteq> [] \<or> card (dom (broadcasts (snd (merge_chunks ?s ds)))) < MAX_INFLIGHT_BROADCASTS_PER_CONN)"
    using Cons.prems prem s'(2)
    by (intro Cons.IH merge_chunk_outcome_inv) simp_all
  then show ?case
    using a(2) s' by (simp add: case_prod_beta del: fun_upd_apply)
qed

lemma receive_all:
  assumes "conn_inv hist s" "has_gathered s b cs" "t \<noteq> 0"
    "\<forall>c' \<in> set (cs @ ds @ [c]). of_broadcast b t st full c'" "distinct (map c_sequence (cs @ ds @ [c]))"
    "\<forall>c \<in> set ds. \<not> c_is_last c" "c_is_last c"
    "cs \<noteq> [] \<or> card (dom (broadcasts s)) < MAX_INFLIGHT_BROADCASTS_PER_CONN"
    "total_accumulated s + payload_entries (ds @ [c]) \<le> MAX_ACCUMULATED_ENTRIES_PER_CONN"
  shows "\<exists>r. fst (merge_chunks s (ds @ [c])) = replicate (length ds) (Accepted None) @ [r] \<and>
    (if complete (cs @ ds @ [c]) then \<exists>n. r = Accepted (Some n) \<and> put_together (cs @ ds @ [c]) n else r = Dropped) \<and>
    core ((broadcasts s)(b := None)) (snd (merge_chunks s (ds @ [c])))"
proof -
  let ?s = "snd (merge_chunks s ds)"
  have "fst (merge_chunks s ds) = replicate (length ds) (Accepted None) \<and> conn_inv (hist @ ds) ?s \<and>
    has_gathered ?s b (cs @ ds) \<and> total_accumulated ?s = total_accumulated s + payload_entries ds \<and>
    (broadcasts ?s)(b := None) = (broadcasts s)(b := None) \<and>
    (cs @ ds \<noteq> [] \<or> card (dom (broadcasts ?s)) < MAX_INFLIGHT_BROADCASTS_PER_CONN)"
    using assms by (intro receive_many [where t = t and st = st and full = full]) simp_all
  then have s': "fst (merge_chunks s ds) = replicate (length ds) (Accepted None)" "conn_inv (hist @ ds) ?s"
    "has_gathered ?s b (cs @ ds)" "total_accumulated ?s = total_accumulated s + payload_entries ds"
    "(broadcasts ?s)(b := None) = (broadcasts s)(b := None)"
    "cs @ ds \<noteq> [] \<or> card (dom (broadcasts ?s)) < MAX_INFLIGHT_BROADCASTS_PER_CONN" by blast+
  obtain a where a: "gathered a ((cs @ ds) @ [c])"
    "fst (merge_chunk_outcome ?s c) = (if complete ((cs @ ds) @ [c]) then Accepted (Some (assemble a)) else Dropped)"
    "core ((broadcasts ?s)(b := None)) (snd (merge_chunk_outcome ?s c))"
    using receive_one [OF s'(2,3) assms(3) _ _ s'(6), of c st full] assms(4,5,7,9) s'(4)
    by (auto simp del: fun_upd_apply)
  have "put_together ((cs @ ds) @ [c]) (assemble a)" if "complete ((cs @ ds) @ [c])"
    using assemble_gathered [OF a(1) that] by simp
  then show ?thesis
    using a(2,3) s'(1,5) by (simp add: merge_chunks_append case_prod_beta del: fun_upd_apply)
qed

section \<open>The chunks of the chunker\<close>

lemma number_chunks_nth:
  "j < length ps \<Longrightarrow> number_chunks n b t st i ps ! j =
    (set_payload (ps ! j) (new_chunk n b t st (of_nat (i + j))))\<lparr>c_is_last := (Suc j = length ps)\<rparr>"
proof (induction ps arbitrary: i j)
  case (Cons p ps)
  then show ?case by (cases j) (auto simp: less_Suc_eq_0_disj add.assoc)
qed simp

lemma length_number_chunks [simp]: "length (number_chunks n b t st i ps) = length ps"
  by (induction ps arbitrary: i) simp_all

lemma payload_set_payload [simp]: "payload (set_payload p c) = p" "payload (c\<lparr>c_is_last := x\<rparr>) = payload c"
  by (simp_all add: payload_def set_payload_def)

lemma map_payload_number_chunks [simp]: "map payload (number_chunks n b t st i ps) = ps"
  by (induction ps arbitrary: i) simp_all

lemma number_chunks_sel:
  assumes "j < length ps" "i + length ps \<le> 256"
    "c = number_chunks n b t st i ps ! j"
  shows "c_broadcast_id c = b" "c_worker_instance_token c = t" "c_store_id c = st"
    "c_is_full_snapshot c = n_is_full_snapshot n" "unat (c_sequence c) = i + j" "c_is_last c \<longleftrightarrow> Suc j = length ps"
    "payload c = ps ! j" "i + j = 0 \<Longrightarrow> chunk_header c = notification_header n"
  using assms(2) unfolding assms(3) number_chunks_nth [OF assms(1)]
  using assms(1) by (simp_all add: set_payload_def new_chunk_def unat_of_nat_small payload_def chunk_header_def
      notification_header_def del: of_nat_add)

lemma chunker_chunks:
  assumes "chunk_blobs_available n b t st k = Inr cs"
  shows "cs \<noteq> []" "length cs \<le> 256" "map (unat \<circ> c_sequence) cs = [0..<length cs]"
    "join_sources (map payload cs) = sources_of n"
    "k \<le> MAX_ENTRIES_PER_CHUNK \<Longrightarrow> \<forall>c \<in> set cs. of_broadcast b t st (n_is_full_snapshot n) c"
    "\<forall>c \<in> set cs. c_sequence c = 0 \<longrightarrow> chunk_header c = notification_header n"
    "\<forall>c \<in> set (butlast cs). \<not> c_is_last c" "c_is_last (last cs)"
    "\<forall>c \<in> set cs. c_is_full_snapshot c = n_is_full_snapshot n"
proof -
  let ?k = "max k 1" and ?ps = "cut_sources (max k 1) (sources_of n)"
  have cs: "cs = number_chunks n b t st 0 ?ps" and len: "0 + length ?ps \<le> 256"
    using assms by (simp_all add: chunk_blobs_available_eq Let_def split: if_splits)
  have l: "length cs = length ?ps" by (simp add: cs)
  note sel = number_chunks_sel [OF _ len refl, of _ n b t st, folded cs]
  show ne: "cs \<noteq> []" and "length cs \<le> 256" using len l cut_sources_not_Nil [of ?k "sources_of n"] by auto
  show "map (unat \<circ> c_sequence) cs = [0..<length cs]"
    using sel(5) by (intro nth_equalityI) (simp_all add: l)
  show "join_sources (map payload cs) = sources_of n" by (simp add: cs join_cut_sources)
  show "\<forall>c \<in> set cs. of_broadcast b t st (n_is_full_snapshot n) c" if "k \<le> MAX_ENTRIES_PER_CHUNK"
  proof
    fix c assume "c \<in> set cs"
    then obtain j where j: "j < length ?ps" "c = cs ! j" by (auto simp: in_set_conv_nth l)
    have "sources_size (?ps ! j) \<le> ?k" using cut_sources_sizes [of ?k j "sources_of n"] j(1) by simp
    then have "entries_in_chunk c \<le> MAX_ENTRIES_PER_CHUNK"
      using that sel(7) [OF j(1)] j(2) by (simp add: entries_in_chunk_payload MAX_ENTRIES_PER_CHUNK_def)
    then show "of_broadcast b t st (n_is_full_snapshot n) c"
      using sel(1-5) [OF j(1)] j len by (simp add: of_broadcast_def)
  qed
  show "\<forall>c \<in> set cs. c_sequence c = 0 \<longrightarrow> chunk_header c = notification_header n"
  proof (intro ballI impI)
    fix c assume "c \<in> set cs" and zero: "c_sequence c = 0"
    then obtain j where j: "j < length ?ps" "c = cs ! j" by (auto simp: in_set_conv_nth l)
    then have "j = 0" using sel(5) [OF j(1)] zero by simp
    then show "chunk_header c = notification_header n" using sel(8) [OF j(1)] j(2) by simp
  qed
  show "\<forall>c \<in> set (butlast cs). \<not> c_is_last c"
    using sel(6) by (auto simp: in_set_conv_nth nth_butlast l)
  show "c_is_last (last cs)" using ne sel(6) [of "length cs - 1"] by (simp add: last_conv_nth l)
  show "\<forall>c \<in> set cs. c_is_full_snapshot c = n_is_full_snapshot n"
    using sel(4) by (auto simp: in_set_conv_nth l)
qed

lemma map_unat_distinct: "distinct (map (unat \<circ> c_sequence) cs) \<longleftrightarrow> distinct (map c_sequence cs)"
  by (simp only: map_map [symmetric] distinct_map [of unat] inj_on_subset [OF inj_unat32 subset_UNIV] simp_thms)

lemma chunker_complete:
  assumes "chunk_blobs_available n b t st k = Inr cs"
  shows "distinct (map c_sequence cs)" "complete cs" "payload_entries cs = sources_size (sources_of n)"
proof -
  note m = chunker_chunks(3) [OF assms]
  show "distinct (map c_sequence cs)" unfolding map_unat_distinct [symmetric] m by simp
  have "set (map (unat \<circ> c_sequence) cs) = {..<length cs}" unfolding m by auto
  then show "complete cs" unfolding complete_def by (simp only: set_map)
  have "payload_entries cs = sources_size (join_sources (map payload cs))"
    by (simp add: payload_entries_def size_join_sources entries_in_chunk_payload [abs_def] comp_def)
  then show "payload_entries cs = sources_size (sources_of n)" by (simp add: chunker_chunks(4) [OF assms])
qed

text \<open>The notification in the form the chunked path carries: legacy digests become stamped entries.\<close>

definition canonical :: "blobs_available_notification \<Rightarrow> blobs_available_notification" where
  "canonical n = n\<lparr>n_digests := [], n_digest_infos := n_digest_infos n @ map legacy_info (n_digests n)\<rparr>"

lemma notification_eqI:
  assumes "sources_of n = sources_of n'" "n_digests n = []" "n_digests n' = []"
    "notification_header n = notification_header n'" "n_is_full_snapshot n = n_is_full_snapshot n'"
  shows "n = n'"
  using assms by (cases n, cases n') (simp add: sources_of_def notification_header_def)

lemma put_together_canonical:
  assumes "chunk_blobs_available n b t st k = Inr cs" "put_together cs n'"
  shows "n' = canonical n"
proof (rule notification_eqI)
  have "0 \<in> (unat \<circ> c_sequence) ` set cs"
    using chunker_complete(2) [OF assms(1)] chunker_chunks(1) [OF assms(1)] by (simp add: complete_def)
  then obtain c where c: "c \<in> set cs" "c_sequence c = 0" by (auto simp: unat_eq_0)
  have "sources_of n' = sources_of n"
    using assms(2) chunker_chunks(4) [OF assms(1)] by (simp add: put_together_def)
  also have "sources_of n = sources_of (canonical n)" by (simp add: canonical_def sources_of_def)
  finally show "sources_of n' = sources_of (canonical n)" .
  show "n_digests n' = []" using assms(2) by (simp add: put_together_def)
  show "n_digests (canonical n) = []" by (simp add: canonical_def)
  have "notification_header n' = notification_header n"
    using assms(2) c chunker_chunks(6) [OF assms(1)] by (auto simp: put_together_def)
  then show "notification_header n' = notification_header (canonical n)"
    by (simp add: canonical_def notification_header_def)
  have "c_is_full_snapshot c = n_is_full_snapshot n" using chunker_chunks(9) [OF assms(1)] c(1) by simp
  then show "n_is_full_snapshot n' = n_is_full_snapshot (canonical n)"
    using assms(2) c(1) by (auto simp: put_together_def canonical_def)
qed

section \<open>What a broadcast is made of\<close>

text \<open>The chunks of one broadcast since a moment at which the connection did not know it.\<close>

definition made_from :: "blobs_available_chunk list \<Rightarrow> u64 \<Rightarrow> blobs_available_accumulator \<Rightarrow> bool" where
  "made_from ds b s \<longleftrightarrow> (\<forall>a. broadcasts s b = Some a \<longrightarrow> (\<exists>gs. subseq gs ds \<and> gathered a gs))"

lemma made_from_core_None: "core (m(b := None)) s \<Longrightarrow> made_from ds b s"
  by (simp add: made_from_def core_def)

lemma merge_into_made_from:
  assumes inv: "conn_inv hist s" and own: "made_from ds b s" and b: "c_broadcast_id c = b"
    and cap: "total_accumulated s + entries_in_chunk c \<le> MAX_ACCUMULATED_ENTRIES_PER_CONN"
  shows "made_from (ds @ [c]) b (snd (merge_into s c))"
    and "fst (merge_into s c) = Accepted (Some n) \<Longrightarrow>
      \<exists>gs. subseq gs ds \<and> complete (gs @ [c]) \<and> c_is_last c \<and>
        payload_entries (gs @ [c]) \<le> MAX_ACCUMULATED_ENTRIES_PER_CONN"
proof -
  obtain acc s1 where ens: "ensure_broadcast c s = (acc, s1)" by fastforce
  obtain cs where "accumulated_entries acc + entries_of ((broadcasts s)(b := None)) \<le> total_accumulated s"
    using ensure_gathered [OF inv ens] b by blast
  then have small: "accumulated_entries acc + entries_in_chunk c \<le> MAX_ACCUMULATED_ENTRIES_PER_CONN"
    using cap by simp
  obtain gs where gs: "subseq gs ds" "gathered acc gs"
    using ensure_broadcast_spec(2) [OF inv ens] own b gathered_new [of c] by (auto simp: made_from_def)
  have sub: "subseq (gs @ [c]) (ds @ [c])" using gs(1) by simp
  show "made_from (ds @ [c]) b (snd (merge_into s c))"
  proof (cases "joins acc c \<and> \<not> c_is_last c")
    case True
    then have "broadcasts (snd (merge_into s c)) = (broadcasts s)(b \<mapsto> snd (merge acc c))"
      using merge_into_joined(4) [OF inv ens gs(2)] b by (simp add: core_def del: fun_upd_apply)
    then show ?thesis
      using sub merge_into_joined(1) [OF inv ens gs(2)] True unfolding made_from_def
      by (auto simp del: subseq_append_iff intro!: exI [of _ "gs @ [c]"])
  next
    case False
    have "core ((broadcasts s)(b := None)) (snd (merge_into s c))"
      using False merge_into_joined(4) [OF inv ens gs(2)] merge_into_refused(2) [OF inv ens] b
      by (cases "joins acc c") (simp_all del: fun_upd_apply)
    then show ?thesis by (rule made_from_core_None)
  qed
  show "\<exists>gs. subseq gs ds \<and> complete (gs @ [c]) \<and> c_is_last c \<and>
      payload_entries (gs @ [c]) \<le> MAX_ACCUMULATED_ENTRIES_PER_CONN"
    if out: "fst (merge_into s c) = Accepted (Some n)"
  proof -
    have j: "joins acc c" using out merge_into_refused(1) [OF inv ens] by fastforce
    note r = merge_into_joined [OF inv ens gs(2) j]
    have "payload_entries (gs @ [c]) \<le> MAX_ACCUMULATED_ENTRIES_PER_CONN"
      using r(1,2) small by (simp add: gathered_def payload_entries_def)
    then show ?thesis using out r(3) gs(1) by (auto split: if_splits)
  qed
qed

lemma merge_chunk_outcome_made_from:
  assumes "conn_inv hist s" "made_from ds b s" "c_broadcast_id c = b"
  shows "made_from (ds @ [c]) b (snd (merge_chunk_outcome s c))"
    and "fst (merge_chunk_outcome s c) = Accepted (Some n) \<Longrightarrow>
      \<exists>gs. subseq gs ds \<and> complete (gs @ [c]) \<and> c_is_last c \<and>
        payload_entries (gs @ [c]) \<le> MAX_ACCUMULATED_ENTRIES_PER_CONN"
proof -
  have same: "made_from (ds @ [c]) b (count_drop f s)" for f
    using assms(2) by (auto simp: made_from_def intro: subseq_order.trans)
  have gone: "made_from (ds @ [c]) b (remove_broadcast b (count_drop f s))" for f
    using core_remove [of "broadcasts s" "count_drop f s" b] conn_inv_core [OF assms(1)] conn_invD(1) [OF assms(1)]
    by (intro made_from_core_None [of "broadcasts s"]) (simp del: fun_upd_apply)
  show "made_from (ds @ [c]) b (snd (merge_chunk_outcome s c))"
    using same gone merge_into_made_from(1) [OF assms] assms(3)
    by (auto simp: merge_chunk_outcome_def Let_def not_less)
  show "\<exists>gs. subseq gs ds \<and> complete (gs @ [c]) \<and> c_is_last c \<and>
      payload_entries (gs @ [c]) \<le> MAX_ACCUMULATED_ENTRIES_PER_CONN"
    if "fst (merge_chunk_outcome s c) = Accepted (Some n)"
    using that merge_into_made_from(2) [OF assms, of n]
    by (auto simp: merge_chunk_outcome_def Let_def not_less split: if_splits)
qed

end
