(* ===== verification/Blob_Locality_Props.thy ===== *)
theory Blob_Locality_Props
  imports Blob_Locality
begin

text \<open>
  What the users of the locality map rely on: a relation between endpoints and digests, as a locale
  with the map as its provider; the effect of a worker's notification (the block of
  \<^verbatim>\<open>handle_blobs_available\<close> in \<^verbatim>\<open>nativelink-service/src/worker_api_server.rs\<close> that mutates the map); the order
  of deltas; and the persisted form.
\<close>

section \<open>Notifications\<close>

text \<open>A notification with its digests already decoded.\<close>

record blobs_available =
  ba_full_snapshot :: bool
  ba_evicted_stamped :: "(digest_info \<times> stamp) list"
  ba_evicted_legacy :: "digest_info list"
  ba_digests_stamped :: "(digest_info \<times> stamp) list"
  ba_pinned_mirror :: "digest_info list"
  ba_pinned_mirror_entries :: "digest_info list"

definition apply_blobs_available :: "endpoint \<Rightarrow> blobs_available \<Rightarrow> blob_locality_map \<Rightarrow> blob_locality_map" where
  "apply_blobs_available ep n m =
     (let m = (if ba_full_snapshot n then remove_endpoint ep m else m);
          m = (if ba_evicted_stamped n \<noteq> [] then evict_blobs_gated ep (ba_evicted_stamped n) m
               else if ba_evicted_legacy n \<noteq> [] then evict_blobs ep (ba_evicted_legacy n) m
               else m);
          digests = map fst (ba_digests_stamped n);
          mirror = ba_pinned_mirror n @ ba_pinned_mirror_entries n
      in if digests = [] \<and> mirror = [] then m
         else if ba_full_snapshot n then register_blobs ep (digests @ mirror) m
         else
           let m = register_blobs_gated ep (ba_digests_stamped n) m
           in if mirror = [] then m
              else register_blobs_gated ep (map (\<lambda>d. (d, stamp_default)) mirror) m)"

section \<open>The contract\<close>

locale worker_holdings =
  fixes inv :: "'m \<Rightarrow> bool" and holds :: "'m \<Rightarrow> endpoint \<Rightarrow> digest_info \<Rightarrow> bool"
    and reg :: "endpoint \<Rightarrow> digest_info list \<Rightarrow> 'm \<Rightarrow> 'm" and evict :: "endpoint \<Rightarrow> digest_info list \<Rightarrow> 'm \<Rightarrow> 'm"
    and leave :: "endpoint \<Rightarrow> 'm \<Rightarrow> 'm"
  assumes inv_reg: "inv m \<Longrightarrow> inv (reg ep ds m)" and inv_evict: "inv m \<Longrightarrow> inv (evict ep ds m)"
    and inv_leave: "inv m \<Longrightarrow> inv (leave ep m)"
    and holds_reg: "inv m \<Longrightarrow> holds (reg ep ds m) e d \<longleftrightarrow> holds m e d \<or> e = ep \<and> d \<in> set ds"
    and holds_evict: "inv m \<Longrightarrow> holds (evict ep ds m) e d \<longleftrightarrow> holds m e d \<and> \<not> (e = ep \<and> d \<in> set ds)"
    and holds_leave: "inv m \<Longrightarrow> holds (leave ep m) e d \<longleftrightarrow> holds m e d \<and> e \<noteq> ep"
begin

text \<open>Replacing what an endpoint holds; an eviction in between changes nothing.\<close>

lemma replace_holdings:
  "inv m \<Longrightarrow> holds (reg ep ds (leave ep m)) e d \<longleftrightarrow> (if e = ep then d \<in> set ds else holds m e d)"
  by (auto simp: holds_reg holds_leave inv_leave)

lemma replace_holdings_evict:
  "inv m \<Longrightarrow> holds (reg ep ds (evict ep ds' (leave ep m))) e d \<longleftrightarrow>
    (if e = ep then d \<in> set ds else holds m e d)"
  by (auto simp: holds_reg holds_leave holds_evict inv_leave inv_evict)

end

definition resident :: "blob_locality_map \<Rightarrow> endpoint \<Rightarrow> digest_info \<Rightarrow> bool" where
  "resident m ep d \<longleftrightarrow> ep \<in> set (lookup_workers d m)"

lemma resident_iff: "locality_inv m \<Longrightarrow> resident m ep d \<longleftrightarrow> residency m d ep \<noteq> None"
  using lookup_workers_residency [of m d] by (simp add: resident_def)

lemma register_fold_resident:
  "fold (\<lambda>d r. r(d := (r d)(ep \<mapsto> s))) ds r d e \<noteq> None \<longleftrightarrow> r d e \<noteq> None \<or> e = ep \<and> d \<in> set ds"
  by (induction ds arbitrary: r) auto

lemma evict_fold_resident:
  "fold (\<lambda>d r. r(d := (r d)(ep := None))) ds r d e \<noteq> None \<longleftrightarrow> r d e \<noteq> None \<and> \<not> (e = ep \<and> d \<in> set ds)"
  by (induction ds arbitrary: r) auto

interpretation lm: worker_holdings locality_inv resident register_blobs evict_blobs remove_endpoint
proof unfold_locales
  fix m ep ds e d
  assume inv: "locality_inv m"
  note step = locality_step_refines [OF inv]
  show "locality_inv (register_blobs ep ds m)" using step(1) [of "RegisterBlobs ep ds"] by simp
  show "locality_inv (evict_blobs ep ds m)" using step(1) [of "EvictBlobs ep ds"] by simp
  show "locality_inv (remove_endpoint ep m)" using step(1) [of "RemoveEndpoint ep"] by simp
  show "resident (register_blobs ep ds m) e d \<longleftrightarrow> resident m e d \<or> e = ep \<and> d \<in> set ds"
    using step [of "RegisterBlobs ep ds"] by (simp add: resident_iff inv register_fold_resident del: not_None_eq)
  show "resident (evict_blobs ep ds m) e d \<longleftrightarrow> resident m e d \<and> \<not> (e = ep \<and> d \<in> set ds)"
    using step [of "EvictBlobs ep ds"] by (simp add: resident_iff inv evict_fold_resident del: not_None_eq)
  show "resident (remove_endpoint ep m) e d \<longleftrightarrow> resident m e d \<and> e \<noteq> ep"
    using step [of "RemoveEndpoint ep"] by (simp add: resident_iff inv)
qed

section \<open>Stamps are linearly ordered\<close>

lemma stamp_gt_trans: "stamp_gt s t \<Longrightarrow> stamp_gt t u \<Longrightarrow> stamp_gt s u"
  unfolding stamp_gt_def by auto

lemma stamp_gt_irrefl [simp]: "\<not> stamp_gt s s"
  by (simp add: stamp_gt_def)

lemma stamp_gt_total: "stamp_gt s t \<or> stamp_eq_ts s t \<or> stamp_gt t s"
  unfolding stamp_gt_def stamp_eq_ts_def by auto

lemma stamp_gt_not_evicts: "stamp_gt t s \<Longrightarrow> \<not> evicts s (Some t)"
  unfolding stamp_gt_def evicts_def stamp_eq_ts_def by auto

text \<open>A stored stamp is at least \<open>s\<close>.\<close>

definition at_least :: "stamp \<Rightarrow> stamp option \<Rightarrow> bool" where
  "at_least s old = (case old of None \<Rightarrow> False | Some t \<Rightarrow> t = s \<or> stamp_gt t s)"

lemma at_least_latest: "at_least s (Some (latest s old))"
  unfolding at_least_def latest_def using stamp_gt_total
  by (auto simp: stamp_eq_ts_def split: option.splits intro: stamp.equality) (metis stamp.equality old.unit.exhaust)

lemma at_least_mono: "at_least s old \<Longrightarrow> at_least s (Some (latest t old))"
  unfolding at_least_def latest_def by (auto split: option.splits intro: stamp_gt_trans)

lemma at_least_keeps: "at_least s old \<Longrightarrow> stamp_gt s t \<Longrightarrow> \<not> evicts t old"
  unfolding at_least_def using stamp_gt_not_evicts stamp_gt_trans
  by (cases old) auto

section \<open>Properties\<close>

text \<open>
  C27. After any sequence of operations the two directions of the map and its lookups are those of the
  stamped relation the operations describe: a lookup lists every holder once, the reverse index has
  exactly its digests, and a digest is known exactly when someone holds it.
\<close>

theorem locality_map_refines_residency:
  "let m = fold locality_step xs locality_new; r = fold residency_step xs (\<lambda>_ _. None)
   in distinct (lookup_workers d m) \<and> set (lookup_workers d m) = {ep. r d ep \<noteq> None} \<and>
      digests_of m ep = {d. r d ep \<noteq> None} \<and> has_digest d m = (\<exists>ep. r d ep \<noteq> None)"
proof -
  let ?m = "fold locality_step xs locality_new"
  have inv: "locality_inv ?m" and res: "residency ?m = fold residency_step xs (\<lambda>_ _. None)"
    using locality_steps_refine [OF locality_new_inv, of xs] by (simp_all add: residency_new)
  have "has_digest d ?m = (lookup_workers d ?m \<noteq> [])"
    using inv by (auto simp: has_digest_def lookup_workers_def locality_inv_def split: option.splits)
  also have "\<dots> = (\<exists>ep. residency ?m d ep \<noteq> None)"
    using lookup_workers_residency [OF inv, of d] by (metis (mono_tags) empty_iff empty_set ex_in_conv mem_Collect_eq set_empty)
  finally have has: "has_digest d ?m = (\<exists>ep. residency ?m d ep \<noteq> None)" .
  have "digests_of ?m ep = {d. residency ?m d ep \<noteq> None}" using inv by (auto simp: locality_inv_def)
  with has lookup_workers_residency [OF inv, of d] show ?thesis unfolding Let_def res by blast
qed

text \<open>Operations that cannot undo a report of endpoint, digest and stamp.\<close>

fun harmless :: "endpoint \<Rightarrow> digest_info \<Rightarrow> stamp \<Rightarrow> locality_op \<Rightarrow> bool" where
  "harmless ep d s (RegisterBlobs e ds) \<longleftrightarrow> e \<noteq> ep \<or> d \<notin> set ds"
| "harmless ep d s (RegisterGated e ds) \<longleftrightarrow> True"
| "harmless ep d s (EvictBlobs e ds) \<longleftrightarrow> e \<noteq> ep \<or> d \<notin> set ds"
| "harmless ep d s (EvictGated e ds) \<longleftrightarrow> e \<noteq> ep \<or> list_all (\<lambda>x. fst x = d \<longrightarrow> stamp_gt s (snd x)) ds"
| "harmless ep d s (RemoveEndpoint e) \<longleftrightarrow> e \<noteq> ep"

lemma register_gated_at_least:
  assumes "at_least s (r d ep)"
  shows "at_least s (fold (\<lambda>(d, s) r. r(d := (r d)(e \<mapsto> latest s (r d e)))) ds r d ep)"
  by (rule fold_invariant [where P = "\<lambda>r. at_least s (r d ep)" and Q = "\<lambda>_. True"])
    (use assms in \<open>auto simp: at_least_mono\<close>)

lemma register_gated_reports:
  assumes "(d, s) \<in> set ds"
  shows "at_least s (fold (\<lambda>(d, s) r. r(d := (r d)(ep \<mapsto> latest s (r d ep)))) ds r d ep)"
  using assms
proof (induction ds arbitrary: r)
  case (Cons x ds)
  show ?case
  proof (cases "x = (d, s)")
    case True
    let ?r = "r(d := (r d)(ep \<mapsto> latest s (r d ep)))"
    have "at_least s (?r d ep)" by (simp add: at_least_latest)
    with register_gated_at_least [of s ?r d ep ep ds] show ?thesis
      by (simp add: True del: fun_upd_apply)
  next
    case False
    with Cons show ?thesis by simp
  qed
qed simp

lemma evict_gated_at_least:
  assumes "at_least s (r d ep)" "e \<noteq> ep \<or> list_all (\<lambda>x. fst x = d \<longrightarrow> stamp_gt s (snd x)) ds"
  shows "at_least s (fold (\<lambda>(d, s) r. if evicts s (r d e) then r(d := (r d)(e := None)) else r) ds r d ep)"
  by (rule fold_invariant [where P = "\<lambda>r. at_least s (r d ep)"
        and Q = "\<lambda>x. e \<noteq> ep \<or> (fst x = d \<longrightarrow> stamp_gt s (snd x))"])
    (use assms in \<open>auto simp: list_all_iff at_least_keeps\<close>)

lemma harmless_step: "harmless ep d s x \<Longrightarrow> at_least s (r d ep) \<Longrightarrow> at_least s (residency_step x r d ep)"
proof (cases x)
  case (RegisterBlobs e ds)
  assume "harmless ep d s x" "at_least s (r d ep)"
  with RegisterBlobs show ?thesis
    by (auto intro!: fold_invariant [where P = "\<lambda>r. at_least s (r d ep)" and Q = "\<lambda>x. e \<noteq> ep \<or> x \<noteq> d"])
next
  case (EvictBlobs e ds)
  assume "harmless ep d s x" "at_least s (r d ep)"
  with EvictBlobs show ?thesis
    by (auto intro!: fold_invariant [where P = "\<lambda>r. at_least s (r d ep)" and Q = "\<lambda>x. e \<noteq> ep \<or> x \<noteq> d"])
qed (auto simp: register_gated_at_least evict_gated_at_least)

text \<open>
  C28. A worker's report that it holds a blob survives every delta that arrives late: as long as no
  eviction as recent as the report, no ungated eviction or snapshot of that worker comes after it, the
  worker is found for the blob.
\<close>

theorem late_deltas_lose_no_blob:
  assumes "(d, s) \<in> set ds" "list_all (harmless ep d s) post"
  shows "ep \<in> set (lookup_workers d (fold locality_step (pre @ RegisterGated ep ds # post) locality_new))"
proof -
  let ?r = "fold residency_step pre (\<lambda>_ _. None)"
  have "at_least s (residency_step (RegisterGated ep ds) ?r d ep)"
    using register_gated_reports [OF assms(1), of ep ?r] by simp
  then have "at_least s (fold residency_step post (residency_step (RegisterGated ep ds) ?r) d ep)"
    using assms(2) by (intro fold_invariant [where P = "\<lambda>r. at_least s (r d ep)" and Q = "harmless ep d s"])
      (auto simp: list_all_iff harmless_step)
  then have "fold residency_step (pre @ RegisterGated ep ds # post) (\<lambda>_ _. None) d ep \<noteq> None"
    by (auto simp: at_least_def split: option.splits)
  moreover have "locality_inv (fold locality_step (pre @ RegisterGated ep ds # post) locality_new)"
    "residency (fold locality_step (pre @ RegisterGated ep ds # post) locality_new) =
      fold residency_step (pre @ RegisterGated ep ds # post) (\<lambda>_ _. None)"
    using locality_steps_refine [OF locality_new_inv, of "pre @ RegisterGated ep ds # post"]
    by (simp_all add: residency_new)
  ultimately show ?thesis using lookup_workers_residency by (metis (mono_tags) mem_Collect_eq)
qed

definition demo_stamp :: "nat \<Rightarrow> stamp" where
  "demo_stamp n = \<lparr>boot_epoch = 7, counter = of_nat n\<rparr>"

theorem late_deltas_lose_no_blob_witness:
  "''w1'' \<in> set (lookup_workers demo_digest (fold locality_step
     [RegisterGated ''w1'' [(demo_digest, demo_stamp 1)], RegisterGated ''w1'' [(demo_digest, demo_stamp 2)],
      EvictGated ''w1'' [(demo_digest, demo_stamp 1)], RemoveEndpoint ''w2''] locality_new))"
  using late_deltas_lose_no_blob [of demo_digest "demo_stamp 2" "[(demo_digest, demo_stamp 2)]" "''w1''"
      "[EvictGated ''w1'' [(demo_digest, demo_stamp 1)], RemoveEndpoint ''w2'']"
      "[RegisterGated ''w1'' [(demo_digest, demo_stamp 1)]]"]
  by (simp add: stamp_gt_def demo_stamp_def)

text \<open>
  C29. A notification that carries a full snapshot makes the endpoint hold exactly what it lists,
  mirrored blobs included, whatever evictions it also carries, and leaves every other endpoint alone.
\<close>

theorem snapshot_is_exact:
  assumes "locality_inv m" "ba_full_snapshot n"
  shows "resident (apply_blobs_available ep n m) e d \<longleftrightarrow>
    (if e = ep then d \<in> set (map fst (ba_digests_stamped n) @ ba_pinned_mirror n @ ba_pinned_mirror_entries n)
     else resident m e d)"
proof -
  have "endpoint_blobs (remove_endpoint ep m) ep = None"
    by (simp add: remove_endpoint_def split: option.split)
  then have "evict_blobs_gated ep xs (remove_endpoint ep m) = remove_endpoint ep m"
    "evict_blobs ep ys (remove_endpoint ep m) = remove_endpoint ep m" for xs ys
    by (simp_all add: evict_blobs_gated_def evict_blobs_def)
  then have "apply_blobs_available ep n m =
      (if map fst (ba_digests_stamped n) = [] \<and> ba_pinned_mirror n @ ba_pinned_mirror_entries n = []
       then remove_endpoint ep m
       else register_blobs ep (map fst (ba_digests_stamped n) @ ba_pinned_mirror n @ ba_pinned_mirror_entries n)
         (remove_endpoint ep m))"
    using assms(2) by (simp add: apply_blobs_available_def Let_def)
  then show ?thesis using assms(1) by (auto simp: lm.replace_holdings lm.holds_leave)
qed

definition demo_snapshot :: blobs_available where
  "demo_snapshot = \<lparr>ba_full_snapshot = True, ba_evicted_stamped = [(demo_digest, demo_stamp 9)],
     ba_evicted_legacy = [], ba_digests_stamped = [(demo_digest, demo_stamp 3)], ba_pinned_mirror = [],
     ba_pinned_mirror_entries = []\<rparr>"

theorem snapshot_is_exact_witness:
  "resident (apply_blobs_available ''w1'' demo_snapshot (register_blobs ''w1'' [zero_digest] locality_new)) ''w1'' demo_digest \<and>
   \<not> resident (apply_blobs_available ''w1'' demo_snapshot (register_blobs ''w1'' [zero_digest] locality_new)) ''w1'' zero_digest"
proof -
  have "demo_digest \<noteq> zero_digest" by (simp add: demo_digest_def zero_digest_def)
  then show ?thesis
    using snapshot_is_exact [OF lm.inv_reg [OF locality_new_inv], of demo_snapshot "''w1''" "''w1''"]
    by (simp add: demo_snapshot_def)
qed

lemma from_le_bytes_le_bytes: "n < 256 ^ k \<Longrightarrow> from_le_bytes (le_bytes k n) = n"
  by (induction k arbitrary: n) (auto simp: unat_of_nat less_mult_imp_div_less mult.commute)

lemma le_bytes_length [simp]: "length (le_bytes k n) = k"
  by (induction k arbitrary: n) auto

lemma le_bytes_from_le_bytes: "le_bytes (length bs) (from_le_bytes bs) = bs"
proof (induction bs)
  case (Cons b bs)
  have "of_nat (unat b + 256 * from_le_bytes bs) = b"
    by (rule word_unat_eq_iff [THEN iffD2]) (simp add: unat_of_nat take_bit_eq_mod unat_less_8 del: of_nat_add)
  with Cons show ?case by (simp add: unat_less_8 del: of_nat_add)
qed simp

lemma from_le_bytes_less: "from_le_bytes bs < 256 ^ length bs"
proof (induction bs)
  case (Cons b bs)
  with unat_less_8 [of b] show ?case by simp
qed simp

text \<open>
  C33. What is persisted at shutdown is read back at startup, for any encoding of the payload that
  decodes what it encodes; and a file that is too short, or whose frame is not this one, is refused.
\<close>

theorem locality_persist_roundtrip:
  assumes "\<And>p body. bincode_encode bc p = Some body \<Longrightarrow> bincode_decode bc body = Some p"
  shows "(\<forall>bs. serialize_to_bytes bc p = Inr bs \<longrightarrow> deserialize_from_bytes bc bs = Inr p) \<and>
    (\<forall>bs q. deserialize_from_bytes bc bs = Inr q \<longrightarrow>
      take 6 bs = le_bytes 4 (unat PERSIST_MAGIC) @ le_bytes 2 (unat PERSIST_VERSION))"
proof (intro conjI allI impI)
  fix bs
  assume "serialize_to_bytes bc p = Inr bs"
  then obtain body where body: "bincode_encode bc p = Some body"
    "bs = le_bytes 4 (unat PERSIST_MAGIC) @ le_bytes 2 (unat PERSIST_VERSION) @ body"
    by (auto simp: serialize_to_bytes_def split: option.splits)
  have "from_le_bytes (le_bytes 4 (unat PERSIST_MAGIC)) = unat PERSIST_MAGIC"
    "from_le_bytes (le_bytes 2 (unat PERSIST_VERSION)) = unat PERSIST_VERSION"
    by (rule from_le_bytes_le_bytes, simp add: PERSIST_MAGIC_def PERSIST_VERSION_def)+
  with body assms [OF body(1)] show "deserialize_from_bytes bc bs = Inr p"
    by (simp add: deserialize_from_bytes_def PERSIST_HEADER_LEN_def)
next
  fix bs q
  assume "deserialize_from_bytes bc bs = Inr q"
  then have len: "6 \<le> length bs" and magic: "(of_nat (from_le_bytes (take 4 bs)) :: u32) = PERSIST_MAGIC"
    and version: "(of_nat (from_le_bytes (take 2 (drop 4 bs))) :: 16 word) = PERSIST_VERSION"
    by (auto simp: deserialize_from_bytes_def PERSIST_HEADER_LEN_def split: if_splits)
  have "from_le_bytes (take 4 bs) < 2 ^ 32" "from_le_bytes (take 2 (drop 4 bs)) < 2 ^ 16"
    using from_le_bytes_less [of "take 4 bs"] from_le_bytes_less [of "take 2 (drop 4 bs)"] len by simp_all
  then have "from_le_bytes (take 4 bs) = unat PERSIST_MAGIC"
    "from_le_bytes (take 2 (drop 4 bs)) = unat PERSIST_VERSION"
    unfolding magic [symmetric] version [symmetric] by (simp_all add: unat_of_nat take_bit_nat_eq_self)
  with le_bytes_from_le_bytes [of "take 4 bs"] le_bytes_from_le_bytes [of "take 2 (drop 4 bs)"] len
  have "take 4 bs @ take 2 (drop 4 bs) = le_bytes 4 (unat PERSIST_MAGIC) @ le_bytes 2 (unat PERSIST_VERSION)"
    by simp
  moreover have "take 6 bs = take 4 bs @ take 2 (drop 4 bs)"
    using take_add [of 4 2 bs] by simp
  ultimately show "take 6 bs = le_bytes 4 (unat PERSIST_MAGIC) @ le_bytes 2 (unat PERSIST_VERSION)" by simp
qed

text \<open>A payload encoding of the empty map only, which fails on everything else.\<close>

definition demo_persisted :: persisted_locality_map where
  "demo_persisted = \<lparr>persisted_at_unix_s = 5, plm_entries = []\<rparr>"

definition demo_bincode :: bincode where
  "demo_bincode = \<lparr>bincode_encode = (\<lambda>p. if p = demo_persisted then Some [5] else None),
     bincode_decode = (\<lambda>bs. if bs = [5] then Some demo_persisted else None)\<rparr>"

lemma le_bytes_2: "le_bytes 2 n = [of_nat n, of_nat (n div 256)]"
  unfolding numeral_2_eq_2 by simp

lemma le_bytes_4: "le_bytes 4 n = [of_nat n, of_nat (n div 256), of_nat (n div 65536), of_nat (n div 16777216)]"
proof -
  have "(4 :: nat) = Suc (Suc (Suc (Suc 0)))" by simp
  then have "le_bytes 4 n = le_bytes (Suc (Suc (Suc (Suc 0)))) n" by (rule arg_cong)
  then show ?thesis by (simp add: div_mult2_eq [symmetric])
qed

theorem locality_persist_roundtrip_witness:
  "deserialize_from_bytes demo_bincode [0x4D, 0x4C, 0x4C, 0x4E, 1, 0, 5] = Inr demo_persisted"
proof -
  have "serialize_to_bytes demo_bincode demo_persisted = Inr [0x4D, 0x4C, 0x4C, 0x4E, 1, 0, 5]"
    by (simp add: serialize_to_bytes_def demo_bincode_def PERSIST_MAGIC_def PERSIST_VERSION_def le_bytes_4 le_bytes_2)
  moreover have "bincode_encode demo_bincode p = Some body \<Longrightarrow> bincode_decode demo_bincode body = Some p" for p body
    by (auto simp: demo_bincode_def split: if_splits)
  ultimately show ?thesis using locality_persist_roundtrip [of demo_bincode demo_persisted] by blast
qed

end
