(* ===== verification/Ac_Pin_Registry.thy ===== *)
theory Ac_Pin_Registry
  imports Blob_Locality
begin

text \<open>
  \<^verbatim>\<open>nativelink-util/src/ac_pin_registry.rs\<close>: the action-cache entries each worker endpoint has pinned, at
  most a fixed number per endpoint. A pin is a store name and a digest; a \<^verbatim>\<open>HashSet\<close> of pins is a set. A
  wipe calls the registered callbacks; the model returns the calls it makes. The rate limit of the
  cap warning is part of the state, and an operation that warns returns the count it logs.
\<close>

section \<open>The registry\<close>

type_synonym ac_pin = "string \<times> digest_info"

record 'cb ac_pin_registry =
  ac_inner :: "endpoint \<rightharpoonup> ac_pin set"
  max_entries_per_endpoint :: nat
  cap_drop_warn_state :: "endpoint \<rightharpoonup> int option \<times> u64"
  endpoint_wipe_callbacks :: "'cb list"

definition CAP_DROP_WARN_INTERVAL :: duration where
  "CAP_DROP_WARN_INTERVAL = 60 * 10 ^ 9"

definition DEFAULT_MAX_AC_PINS_PER_ENDPOINT :: nat where
  "DEFAULT_MAX_AC_PINS_PER_ENDPOINT = 1000000"

definition with_max_entries_per_endpoint :: "nat \<Rightarrow> 'cb ac_pin_registry" where
  "with_max_entries_per_endpoint k =
     \<lparr>ac_inner = Map.empty, max_entries_per_endpoint = k, cap_drop_warn_state = Map.empty,
      endpoint_wipe_callbacks = []\<rparr>"

definition ac_registry_new :: "'cb ac_pin_registry" where
  "ac_registry_new =
     \<lparr>ac_inner = Map.empty, max_entries_per_endpoint = DEFAULT_MAX_AC_PINS_PER_ENDPOINT,
      cap_drop_warn_state = Map.empty, endpoint_wipe_callbacks = []\<rparr>"

definition on_endpoint_wipe :: "'cb \<Rightarrow> 'cb ac_pin_registry \<Rightarrow> 'cb ac_pin_registry" where
  "on_endpoint_wipe callback r = r\<lparr>endpoint_wipe_callbacks := endpoint_wipe_callbacks r @ [callback]\<rparr>"

text \<open>The drops since the last warning if it is time to warn. \<^verbatim>\<open>Instant::duration_since\<close> saturates at zero.\<close>

definition maybe_warn_cap_drop :: "int \<Rightarrow> endpoint \<Rightarrow> 'cb ac_pin_registry \<Rightarrow> u64 option \<times> 'cb ac_pin_registry" where
  "maybe_warn_cap_drop now ep r =
     (let entry = (case cap_drop_warn_state r ep of None \<Rightarrow> (None, 0) | Some e \<Rightarrow> e);
          drops = saturating_add (snd entry) 1;
          should_warn = (case fst entry of None \<Rightarrow> True | Some last_warn \<Rightarrow> CAP_DROP_WARN_INTERVAL \<le> nat (now - last_warn))
      in if should_warn
         then (Some drops, r\<lparr>cap_drop_warn_state := (cap_drop_warn_state r)(ep \<mapsto> (Some now, 0))\<rparr>)
         else (None, r\<lparr>cap_drop_warn_state := (cap_drop_warn_state r)(ep \<mapsto> (fst entry, drops))\<rparr>))"

definition pins_of :: "'cb ac_pin_registry \<Rightarrow> endpoint \<Rightarrow> ac_pin set" where
  "pins_of r ep = (case ac_inner r ep of None \<Rightarrow> {} | Some s \<Rightarrow> s)"

definition register_ac_pin :: "int \<Rightarrow> endpoint \<Rightarrow> string \<Rightarrow> digest_info \<Rightarrow> 'cb ac_pin_registry \<Rightarrow> 'cb ac_pin_registry" where
  "register_ac_pin now ep store_id digest r =
     (let cur_len = card (pins_of r ep);
          already_present = (store_id, digest) \<in> pins_of r ep
      in if max_entries_per_endpoint r \<le> cur_len \<and> \<not> already_present then snd (maybe_warn_cap_drop now ep r)
         else r\<lparr>ac_inner := (ac_inner r)(ep \<mapsto> insert (store_id, digest) (pins_of r ep))\<rparr>)"

definition replace_endpoint_ac_pins :: "int \<Rightarrow> endpoint \<Rightarrow> ac_pin list \<Rightarrow> 'cb ac_pin_registry \<Rightarrow> 'cb ac_pin_registry" where
  "replace_endpoint_ac_pins now ep entries r =
     (let cap = max_entries_per_endpoint r;
          drops = length entries - cap;
          new_set = set (take cap entries);
          r = (if new_set = {} then r\<lparr>ac_inner := (ac_inner r)(ep := None)\<rparr>
               else r\<lparr>ac_inner := (ac_inner r)(ep \<mapsto> new_set)\<rparr>)
      in if 0 < drops then snd (maybe_warn_cap_drop now ep r) else r)"

text \<open>Keeping the pins of an endpoint that satisfy a condition; an endpoint without pins is removed.\<close>

definition retain_pins :: "endpoint \<Rightarrow> (ac_pin \<Rightarrow> bool) \<Rightarrow> 'cb ac_pin_registry \<Rightarrow> 'cb ac_pin_registry" where
  "retain_pins ep P r =
     (case ac_inner r ep of
        None \<Rightarrow> r
      | Some s \<Rightarrow>
          let s' = {x \<in> s. P x}
          in r\<lparr>ac_inner := (ac_inner r)(ep := (if s' = {} then None else Some s'))\<rparr>)"

definition remove_digests_for_endpoint :: "endpoint \<Rightarrow> digest_info list \<Rightarrow> 'cb ac_pin_registry \<Rightarrow> 'cb ac_pin_registry" where
  "remove_digests_for_endpoint ep digests r =
     (if digests = [] then r else retain_pins ep (\<lambda>(_, d). d \<notin> set digests) r)"

definition remove_digests_for_endpoint_in_store ::
  "endpoint \<Rightarrow> string \<Rightarrow> digest_info list \<Rightarrow> 'cb ac_pin_registry \<Rightarrow> 'cb ac_pin_registry" where
  "remove_digests_for_endpoint_in_store ep store_id digests r =
     (if digests = [] then r else retain_pins ep (\<lambda>(sid, d). \<not> (sid = store_id \<and> d \<in> set digests)) r)"

definition remove_digests_for_endpoint_batch ::
  "endpoint \<Rightarrow> (string \<times> digest_info list) list \<Rightarrow> 'cb ac_pin_registry \<Rightarrow> bool \<times> 'cb ac_pin_registry" where
  "remove_digests_for_endpoint_batch ep drains r =
     (if drains = [] then (False, r)
      else
        case ac_inner r ep of
          None \<Rightarrow> (False, r)
        | Some s \<Rightarrow>
            let before_len = card s;
                s' =
                  (if length drains = 1 then
                     (case drains ! 0 of (store_id, digests) \<Rightarrow>
                        if digests \<noteq> [] then {x \<in> s. \<not> (fst x = store_id \<and> snd x \<in> set digests)} else s)
                   else
                     let lookups = filter (\<lambda>(_, ds). ds \<noteq> []) drains
                     in if lookups \<noteq> []
                        then {x \<in> s. \<not> list_ex (\<lambda>(st, lk). fst x = st \<and> snd x \<in> set lk) lookups}
                        else s)
            in (card s' < before_len, r\<lparr>ac_inner := (ac_inner r)(ep := (if s' = {} then None else Some s'))\<rparr>))"

definition wipe_endpoint :: "endpoint \<Rightarrow> 'cb ac_pin_registry \<Rightarrow> ('cb \<times> endpoint) list \<times> 'cb ac_pin_registry" where
  "wipe_endpoint ep r =
     (map (\<lambda>cb. (cb, ep)) (endpoint_wipe_callbacks r),
      r\<lparr>ac_inner := (ac_inner r)(ep := None), cap_drop_warn_state := (cap_drop_warn_state r)(ep := None)\<rparr>)"

definition endpoint_counts :: "'cb ac_pin_registry \<Rightarrow> endpoint \<rightharpoonup> nat" where
  "endpoint_counts r = (\<lambda>ep. map_option card (ac_inner r ep))"

definition endpoint_count :: "'cb ac_pin_registry \<Rightarrow> nat" where
  "endpoint_count r = card (dom (ac_inner r))"

definition endpoint_holds_digest :: "'cb ac_pin_registry \<Rightarrow> endpoint \<Rightarrow> digest_info \<Rightarrow> bool" where
  "endpoint_holds_digest r ep digest =
     (case ac_inner r ep of None \<Rightarrow> False | Some s \<Rightarrow> \<exists>x \<in> s. snd x = digest)"

section \<open>Well-formed registries\<close>

definition ac_registry_wf :: "'cb ac_pin_registry \<Rightarrow> bool" where
  "ac_registry_wf r \<longleftrightarrow>
     (\<forall>ep s. ac_inner r ep = Some s \<longrightarrow> finite s \<and> s \<noteq> {} \<and> card s \<le> max_entries_per_endpoint r)"

datatype 'cb ac_op = RegisterPin int endpoint string digest_info | ReplacePins int endpoint "ac_pin list"
  | RemoveDigests endpoint "digest_info list" | RemoveInStore endpoint string "digest_info list"
  | RemoveBatch endpoint "(string \<times> digest_info list) list" | WipeEndpoint endpoint | OnWipe 'cb

fun ac_step :: "'cb ac_op \<Rightarrow> 'cb ac_pin_registry \<Rightarrow> 'cb ac_pin_registry" where
  "ac_step (RegisterPin now ep st d) r = register_ac_pin now ep st d r"
| "ac_step (ReplacePins now ep entries) r = replace_endpoint_ac_pins now ep entries r"
| "ac_step (RemoveDigests ep ds) r = remove_digests_for_endpoint ep ds r"
| "ac_step (RemoveInStore ep st ds) r = remove_digests_for_endpoint_in_store ep st ds r"
| "ac_step (RemoveBatch ep drains) r = snd (remove_digests_for_endpoint_batch ep drains r)"
| "ac_step (WipeEndpoint ep) r = snd (wipe_endpoint ep r)"
| "ac_step (OnWipe cb) r = on_endpoint_wipe cb r"

lemma maybe_warn_frame [frame_simps, simp]:
  "ac_inner (snd (maybe_warn_cap_drop now ep r)) = ac_inner r"
  "max_entries_per_endpoint (snd (maybe_warn_cap_drop now ep r)) = max_entries_per_endpoint r"
  by (simp_all add: maybe_warn_cap_drop_def Let_def)

lemma replace_inner:
  "ac_inner (replace_endpoint_ac_pins now ep entries r) =
    (ac_inner r)(ep := (if take (max_entries_per_endpoint r) entries = [] then None
                        else Some (set (take (max_entries_per_endpoint r) entries))))"
  by (simp add: replace_endpoint_ac_pins_def Let_def)

lemma batch_eq:
  "remove_digests_for_endpoint_batch ep drains r =
    (let P = (\<lambda>x. \<not> list_ex (\<lambda>(st, lk). fst x = st \<and> snd x \<in> set lk) drains)
     in (card {x \<in> pins_of r ep. P x} < card (pins_of r ep),
         if drains = [] then r else retain_pins ep P r))"
proof -
  have skip: "list_ex (\<lambda>(st, lk). fst x = st \<and> snd x \<in> set lk) (filter (\<lambda>(_, ds). ds \<noteq> []) drains) =
    list_ex (\<lambda>(st, lk). fst x = st \<and> snd x \<in> set lk) drains" for x :: ac_pin
    by (induction drains) auto
  have none: "\<not> list_ex (\<lambda>(st, lk). fst x = st \<and> snd x \<in> set lk) drains"
    if "filter (\<lambda>(_, ds). ds \<noteq> []) drains = []" for x :: ac_pin
    using that skip [of x] by simp
  show ?thesis
  proof (cases "ac_inner r ep")
    case None
    then show ?thesis by (simp add: remove_digests_for_endpoint_batch_def retain_pins_def pins_of_def Let_def)
  next
    case (Some s)
    consider "drains = []" | d where "drains = [d]" | "2 \<le> length drains"
      by (cases drains rule: remdups_adj.cases) auto
    then show ?thesis
    proof cases
      case 1
      then show ?thesis using Some by (simp add: remove_digests_for_endpoint_batch_def pins_of_def)
    next
      case 2
      then show ?thesis
        using Some by (cases d) (auto simp: remove_digests_for_endpoint_batch_def retain_pins_def pins_of_def Let_def)
    next
      case 3
      then have many: "drains \<noteq> []" "length drains \<noteq> 1" by auto
      show ?thesis
      proof (cases "filter (\<lambda>(_, ds). ds \<noteq> []) drains = []")
        case True
        then have "{x \<in> s. \<not> list_ex (\<lambda>(st, lk). fst x = st \<and> snd x \<in> set lk) drains} = s"
          using none by blast
        then show ?thesis
          using Some many True by (simp only: remove_digests_for_endpoint_batch_def retain_pins_def pins_of_def Let_def
              option.case if_False simp_thms)
      next
        case False
        then show ?thesis
          using Some many by (simp only: remove_digests_for_endpoint_batch_def retain_pins_def pins_of_def Let_def skip
              option.case if_False if_True simp_thms)
      qed
    qed
  qed
qed

lemma ac_registry_wfD [inv_dests]:
  "ac_registry_wf r \<Longrightarrow> ac_inner r ep = Some s \<Longrightarrow> finite s \<and> s \<noteq> {} \<and> card s \<le> max_entries_per_endpoint r"
  by (simp add: ac_registry_wf_def)

lemma pins_of_wf: "ac_registry_wf r \<Longrightarrow> finite (pins_of r ep) \<and> card (pins_of r ep) \<le> max_entries_per_endpoint r"
  by (auto simp: pins_of_def dest: ac_registry_wfD split: option.split)

text \<open>An operation that gives one endpoint a new set keeps the registry well formed.\<close>

lemma ac_registry_wf_upd:
  assumes "ac_registry_wf r" "ac_inner r' = (ac_inner r)(ep := x)" "max_entries_per_endpoint r' = max_entries_per_endpoint r"
    "case x of None \<Rightarrow> True | Some s \<Rightarrow> finite s \<and> s \<noteq> {} \<and> card s \<le> max_entries_per_endpoint r"
  shows "ac_registry_wf r'"
  using assms by (auto simp: ac_registry_wf_def split: option.splits)

lemma retain_pins_wf [inv_intros]:
  assumes "ac_registry_wf r"
  shows "ac_registry_wf (retain_pins ep P r)"
proof (cases "ac_inner r ep")
  case None
  then show ?thesis using assms by (simp add: retain_pins_def)
next
  case (Some s)
  have s: "finite s" "card s \<le> max_entries_per_endpoint r" using ac_registry_wfD [OF assms Some] by simp_all
  have "card {x \<in> s. P x} \<le> card s" using s(1) by (intro card_mono) auto
  then have "card {x \<in> s. P x} \<le> max_entries_per_endpoint r" using s(2) by (rule le_trans)
  then show ?thesis
    using assms s Some
    by (intro ac_registry_wf_upd [OF assms, where ep = ep and x = "if {x \<in> s. P x} = {} then None else Some {x \<in> s. P x}"])
      (simp_all add: retain_pins_def Let_def)
qed

lemma replace_wf [inv_intros]:
  assumes "ac_registry_wf r"
  shows "ac_registry_wf (replace_endpoint_ac_pins now ep entries r)"
proof -
  have "card (set (take (max_entries_per_endpoint r) entries)) \<le> max_entries_per_endpoint r"
    using card_length [of "take (max_entries_per_endpoint r) entries"] by simp
  then show ?thesis
    by (intro ac_registry_wf_upd [OF assms replace_inner])
      (auto simp: replace_endpoint_ac_pins_def Let_def split: option.split)
qed

lemma register_wf [inv_intros]:
  assumes "ac_registry_wf r"
  shows "ac_registry_wf (register_ac_pin now ep st d r)"
proof (cases "max_entries_per_endpoint r \<le> card (pins_of r ep) \<and> (st, d) \<notin> pins_of r ep")
  case True
  then show ?thesis using assms by (simp add: register_ac_pin_def ac_registry_wf_def)
next
  case False
  have "finite (pins_of r ep)" "card (insert (st, d) (pins_of r ep)) \<le> max_entries_per_endpoint r"
    using False pins_of_wf [OF assms, of ep] by (auto simp: card_insert_if)
  then show ?thesis
    using False
    by (intro ac_registry_wf_upd [OF assms, where ep = ep and x = "Some (insert (st, d) (pins_of r ep))"])
      (auto simp: register_ac_pin_def Let_def)
qed

lemma retain_pins_frame [frame_simps, simp]: "max_entries_per_endpoint (retain_pins ep P r) = max_entries_per_endpoint r"
  by (simp add: retain_pins_def Let_def split: option.split)

lemma pin_ops_frame [frame_simps, simp]:
  "max_entries_per_endpoint (register_ac_pin now ep st d r) = max_entries_per_endpoint r"
  "max_entries_per_endpoint (replace_endpoint_ac_pins now ep entries r) = max_entries_per_endpoint r"
  by (simp_all add: register_ac_pin_def replace_endpoint_ac_pins_def Let_def)

lemma on_endpoint_wipe_wf [inv_intros]: "ac_registry_wf r \<Longrightarrow> ac_registry_wf (on_endpoint_wipe cb r)"
  by (simp add: ac_registry_wf_def on_endpoint_wipe_def)

lemma wipe_endpoint_wf [inv_intros]: "ac_registry_wf r \<Longrightarrow> ac_registry_wf (snd (wipe_endpoint ep r))"
  by (simp add: ac_registry_wf_def wipe_endpoint_def)

lemma ac_step_wf:
  assumes "ac_registry_wf r"
  shows "ac_registry_wf (ac_step op r) \<and> max_entries_per_endpoint (ac_step op r) = max_entries_per_endpoint r"
  using assms
  by (cases op)
    (simp_all add: inv_intros batch_eq Let_def remove_digests_for_endpoint_def
      remove_digests_for_endpoint_in_store_def, simp_all add: wipe_endpoint_def on_endpoint_wipe_def)

lemma ac_steps_wf:
  "ac_registry_wf r \<Longrightarrow>
    ac_registry_wf (fold ac_step ops r) \<and> max_entries_per_endpoint (fold ac_step ops r) = max_entries_per_endpoint r"
  by (induction ops arbitrary: r) (simp_all add: ac_step_wf)

lemma with_max_wf [inv_intros]: "ac_registry_wf (with_max_entries_per_endpoint k)"
  by (simp add: ac_registry_wf_def with_max_entries_per_endpoint_def)

section \<open>Properties\<close>

text \<open>C30. In every state of the registry each endpoint it knows has at least one pin and at most the
  configured number, and an advertisement makes the pins of its endpoint exactly the entries up to
  that number, without touching other endpoints.\<close>

theorem ac_registry_well_formed:
  "let r = fold ac_step ops (with_max_entries_per_endpoint k)
   in ac_registry_wf r \<and> max_entries_per_endpoint r = k \<and>
      pins_of (replace_endpoint_ac_pins now ep entries r) = (pins_of r)(ep := set (take k entries))"
proof -
  let ?r = "fold ac_step ops (with_max_entries_per_endpoint k)"
  have wf: "ac_registry_wf ?r" "max_entries_per_endpoint ?r = k"
    using ac_steps_wf [OF with_max_wf, of ops k] by (simp_all add: with_max_entries_per_endpoint_def)
  moreover have "pins_of (replace_endpoint_ac_pins now ep entries ?r) = (pins_of ?r)(ep := set (take k entries))"
    by (rule ext) (simp add: pins_of_def replace_inner wf(2))
  ultimately show ?thesis by (simp add: Let_def)
qed

lemma retain_pins_retain_pins:
  "retain_pins ep Q (retain_pins ep P r) = retain_pins ep (\<lambda>x. P x \<and> Q x) r"
proof (cases "ac_inner r ep")
  case (Some s)
  have "{x \<in> {x \<in> s. P x}. Q x} = {x \<in> s. P x \<and> Q x}" by blast
  moreover have "{x \<in> s. P x} = {} \<Longrightarrow> {x \<in> s. P x \<and> Q x} = {}" by blast
  ultimately show ?thesis using Some by (simp add: retain_pins_def Let_def)
qed (simp add: retain_pins_def)

lemma retain_pins_all:
  assumes "ac_registry_wf r" "\<And>x. P x"
  shows "retain_pins ep P r = r"
  using assms(2) ac_registry_wfD [OF assms(1), of ep]
  by (cases "ac_inner r ep") (simp_all add: retain_pins_def Let_def map_upd_triv)

lemma sequential_removal:
  assumes "ac_registry_wf r"
  shows "fold (\<lambda>(st, ds). remove_digests_for_endpoint_in_store ep st ds) drains r =
    (if drains = [] then r
     else retain_pins ep (\<lambda>x. \<not> list_ex (\<lambda>(st, lk). fst x = st \<and> snd x \<in> set lk) drains) r)"
  using assms
proof (induction drains arbitrary: r)
  case (Cons d drains)
  obtain st ds where d: "d = (st, ds)" by fastforce
  let ?P = "\<lambda>x. \<not> (fst x = st \<and> snd x \<in> set ds)"
  have one: "remove_digests_for_endpoint_in_store ep st ds r = retain_pins ep ?P r"
    using retain_pins_all [OF Cons.prems, of ?P ep]
    by (cases "ds = []") (simp_all add: remove_digests_for_endpoint_in_store_def case_prod_unfold)
  have "ac_registry_wf (retain_pins ep ?P r)" using Cons.prems by (rule retain_pins_wf)
  then show ?case
    using Cons.IH [of "retain_pins ep ?P r"]
    by (cases "drains = []") (simp_all add: d one retain_pins_retain_pins)
qed simp

text \<open>Draining several stores in one pass is the same as draining them one after the other, and the result
  says whether anything was removed.\<close>

lemma batch_removal_is_sequential:
  "let r = fold ac_step ops (with_max_entries_per_endpoint k)
   in snd (remove_digests_for_endpoint_batch ep drains r) =
        fold (\<lambda>(st, ds). remove_digests_for_endpoint_in_store ep st ds) drains r \<and>
      (fst (remove_digests_for_endpoint_batch ep drains r) \<longleftrightarrow>
        ac_inner (snd (remove_digests_for_endpoint_batch ep drains r)) \<noteq> ac_inner r)"
proof -
  let ?r = "fold ac_step ops (with_max_entries_per_endpoint k)"
  let ?P = "\<lambda>x. \<not> list_ex (\<lambda>(st, lk). fst x = st \<and> snd x \<in> set lk) drains"
  have wf: "ac_registry_wf ?r" using ac_steps_wf [OF with_max_wf, of ops k] by simp
  have fin: "finite (pins_of ?r ep)" using pins_of_wf [OF wf] by blast
  have less: "card {x \<in> pins_of ?r ep. ?P x} < card (pins_of ?r ep) \<longleftrightarrow> {x \<in> pins_of ?r ep. ?P x} \<noteq> pins_of ?r ep"
    using psubset_card_mono [OF fin, of "{x \<in> pins_of ?r ep. ?P x}"] by (metis (no_types, lifting) less_irrefl mem_Collect_eq psubsetI subsetI)
  have changed: "ac_inner (retain_pins ep ?P ?r) \<noteq> ac_inner ?r \<longleftrightarrow> {x \<in> pins_of ?r ep. ?P x} \<noteq> pins_of ?r ep"
  proof (cases "ac_inner ?r ep")
    case None
    then show ?thesis by (simp add: retain_pins_def pins_of_def)
  next
    case (Some s)
    define s' where "s' = {x \<in> s. ?P x}"
    have "(ac_inner ?r)(ep := x) = ac_inner ?r \<longleftrightarrow> x = Some s" for x
      using Some by (metis fun_upd_same fun_upd_triv)
    then have "((ac_inner ?r)(ep := (if s' = {} then None else Some s')) \<noteq> ac_inner ?r) \<longleftrightarrow> s' \<noteq> s"
      using ac_registry_wfD [OF wf Some] by auto
    then show ?thesis
      using Some by (simp add: retain_pins_def pins_of_def Let_def s'_def [symmetric] del: fun_upd_apply if_split)
  qed
  show ?thesis
    using sequential_removal [OF wf, of ep drains] less changed
    by (cases "drains = []") (simp_all add: batch_eq Let_def)
qed

end
