(* ===== verification/Worker_Connection.thy ===== *)
theory Worker_Connection
  imports Blobs_Broadcast Blob_Locality_Props Ac_Pin_Registry
begin

text \<open>
  The server's end of a worker connection, as far as notifications go: the arm of
  \<^verbatim>\<open>nativelink-service/src/worker_api_server.rs\<close> that receives a chunk, acknowledges it and hands a
  complete notification on, and \<^verbatim>\<open>handle_blobs_available\<close> with its effects on the locality map and the
  registry of action-cache pins. What it tells the scheduler and the worker proxy is recorded as the
  list of calls, in the order in which they are made; errors of those calls are only logged. The tasks it spawns
  are recorded as calls too; what they do in the store is not part of the model.
\<close>

section \<open>Decoding a notification\<close>

definition decode_digest :: "hex_crate \<Rightarrow> proto_digest \<Rightarrow> digest_info option" where
  "decode_digest hx d = (case digest_try_from hx d of Inl _ \<Rightarrow> None | Inr x \<Rightarrow> Some x)"

definition decode_info :: "hex_crate \<Rightarrow> blob_digest_info \<Rightarrow> (digest_info \<times> stamp) option" where
  "decode_info hx info =
     map_option (\<lambda>d. (d, \<lparr>boot_epoch = ts_boot_epoch info, counter = ts_counter info\<rparr>))
       (Option.bind (bdi_digest info) (decode_digest hx))"

definition decode_pin_entry :: "hex_crate \<Rightarrow> mirror_pin_entry \<Rightarrow> digest_info option" where
  "decode_pin_entry hx e = Option.bind (mpe_digest e) (decode_digest hx)"

definition decode_blobs_available :: "hex_crate \<Rightarrow> blobs_available_notification \<Rightarrow> blobs_available" where
  "decode_blobs_available hx n =
     (let evicted_stamped = List.map_filter (decode_info hx) (n_evicted_blob_infos n)
      in \<lparr>ba_full_snapshot = n_is_full_snapshot n,
          ba_evicted_stamped = evicted_stamped,
          ba_evicted_legacy =
            (if evicted_stamped = [] then List.map_filter (decode_digest hx) (n_evicted_digests n) else []),
          ba_digests_stamped =
            List.map_filter (decode_info hx) (n_digest_infos n) @
            map (\<lambda>d. (d, stamp_default)) (List.map_filter (decode_digest hx) (n_digests n)),
          ba_pinned_mirror = List.map_filter (decode_digest hx) (n_pinned_mirror_digests n),
          ba_pinned_mirror_entries = List.map_filter (decode_pin_entry hx) (n_pinned_mirror_entries n)\<rparr>)"

text \<open>The pins of an advertisement, at most \<open>cap\<close> of them; entries that do not decode are skipped.\<close>

fun collect_ac_entries :: "hex_crate \<Rightarrow> nat \<Rightarrow> mirror_pin_entry list \<Rightarrow> ac_pin list \<Rightarrow> ac_pin list" where
  "collect_ac_entries hx cap [] entries = entries"
| "collect_ac_entries hx cap (e # es) entries =
     (if cap \<le> length entries then collect_ac_entries hx cap es entries
      else case mpe_digest e of
          None \<Rightarrow> collect_ac_entries hx cap es entries
        | Some proto_digest \<Rightarrow>
            (case digest_try_from hx proto_digest of
               Inl _ \<Rightarrow> collect_ac_entries hx cap es entries
             | Inr digest \<Rightarrow>
                 if mpe_store_id e = [] then collect_ac_entries hx cap es entries
                 else collect_ac_entries hx cap es (entries @ [(mpe_store_id e, digest)])))"

section \<open>The handler\<close>

datatype handler_call =
    UpdateWorkerLoad u32 u32 u32
  | UpdateIndefinitePinSaturation bool
  | UpdateSwapPressure bool u32
  | UpdateDiskPressure bool u64
  | UpdateConstructLatency u32
  | RecordMirrorCapacity endpoint u64 u64
  | UpdateCachedDirectories "digest_info set"
  | UpdateCachedSubtrees bool "digest_info list" "digest_info list" "digest_info list"
  | BroadcastPinnedMirrorAck "mirror_pin_entry list"
  | PullPinnedMirrorBlobs "digest_info list"
  | MarkStableAndBackfill "digest_info list" bool bool
  | SendReconcileComplete

text \<open>The monotonic clock, and the seconds since the epoch.\<close>

record clocks =
  instant :: int
  unix_secs :: u64

definition BACKFILL_COOLDOWN_SECS :: nat where
  "BACKFILL_COOLDOWN_SECS = 5"

record 'cb worker_connection =
  conn_cas_endpoint :: endpoint
  has_worker_proxy :: bool
  has_cas_store :: bool
  has_dispatcher :: bool
  last_backfill_epoch_secs :: u64
  reconcile_complete_sent :: bool
  conn_locality_map :: "blob_locality_map option"
  conn_ac_pin_registry :: "'cb ac_pin_registry option"
  conn_accumulator :: blobs_available_accumulator
  conn_calls :: "handler_call list"

definition handler_calls :: "hex_crate \<Rightarrow> bool \<Rightarrow> blobs_available_notification \<Rightarrow> handler_call list" where
  "handler_calls hx proxy n =
     (let decode = List.map_filter (decode_digest hx) in
      [UpdateWorkerLoad (n_cpu_load_pct n) (n_p_core_load_pct n) (n_e_core_load_pct n),
       UpdateIndefinitePinSaturation (n_indefinite_pin_saturated n),
       UpdateSwapPressure (n_memory_pressured n) (n_memory_pressure_level n),
       UpdateDiskPressure (n_disk_pressured n) (n_available_disk_bytes n),
       UpdateConstructLatency (n_construct_latency_ms_p95 n)] @
      (if 0 < n_mirror_max_bytes n \<and> proxy
       then [RecordMirrorCapacity (n_worker_cas_endpoint n) (n_mirror_used_bytes n) (n_mirror_max_bytes n)] else []) @
      (if n_cached_directory_digests n \<noteq> [] \<and> \<not> n_is_full_subtree_snapshot n
       then [UpdateCachedDirectories (set (decode (n_cached_directory_digests n)))] else []) @
      (if n_is_full_subtree_snapshot n \<or> n_added_subtree_digests n \<noteq> [] \<or> n_removed_subtree_digests n \<noteq> []
       then [UpdateCachedSubtrees (n_is_full_subtree_snapshot n)
              (if n_is_full_subtree_snapshot n then decode (n_cached_directory_digests n) else [])
              (decode (n_added_subtree_digests n)) (decode (n_removed_subtree_digests n))] else []))"

definition report_endpoint :: "'cb worker_connection \<Rightarrow> blobs_available_notification \<Rightarrow> endpoint" where
  "report_endpoint s n = (if n_worker_cas_endpoint n = [] then conn_cas_endpoint s else n_worker_cas_endpoint n)"

definition replace_advertised_pins ::
  "hex_crate \<Rightarrow> clocks \<Rightarrow> blobs_available_notification \<Rightarrow> 'cb worker_connection \<Rightarrow> 'cb worker_connection" where
  "replace_advertised_pins hx now n s =
     (case conn_ac_pin_registry s of
        None \<Rightarrow> s
      | Some registry \<Rightarrow>
          if report_endpoint s n = [] then s
          else s\<lparr>conn_ac_pin_registry := Some (replace_endpoint_ac_pins (instant now) (report_endpoint s n)
                 (collect_ac_entries hx DEFAULT_MAX_AC_PINS_PER_ENDPOINT (n_pinned_ac_mirror_entries n) []) registry)\<rparr>)"

definition record_call :: "handler_call \<Rightarrow> 'cb worker_connection \<Rightarrow> 'cb worker_connection" where
  "record_call c s = s\<lparr>conn_calls := conn_calls s @ [c]\<rparr>"

definition ack_pinned_mirror :: "blobs_available_notification \<Rightarrow> 'cb worker_connection \<Rightarrow> 'cb worker_connection" where
  "ack_pinned_mirror n s =
     (if n_pinned_mirror_entries n \<noteq> [] \<and> has_dispatcher s
      then record_call (BroadcastPinnedMirrorAck (n_pinned_mirror_entries n)) s else s)"

definition send_reconcile_complete :: "bool \<Rightarrow> 'cb worker_connection \<Rightarrow> 'cb worker_connection" where
  "send_reconcile_complete is_full_snapshot s =
     (if \<not> is_full_snapshot \<or> reconcile_complete_sent s then s
      else record_call SendReconcileComplete (s\<lparr>reconcile_complete_sent := True\<rparr>))"

text \<open>The part after the map is updated. The spawned backfill ends with the reconcile message of its own.\<close>

definition follow_up ::
  "clocks \<Rightarrow> blobs_available_notification \<Rightarrow> blobs_available \<Rightarrow> 'cb worker_connection \<Rightarrow> 'cb worker_connection" where
  "follow_up now n b s =
     (let pinned_mirror = ba_pinned_mirror b;
          digests = map fst (ba_digests_stamped b);
          s = (if pinned_mirror \<noteq> [] \<and> has_cas_store s then record_call (PullPinnedMirrorBlobs pinned_mirror) s else s)
      in if digests \<noteq> [] \<and> has_cas_store s then
           let cooldown_passed = (BACKFILL_COOLDOWN_SECS \<le> unat (unix_secs now) - unat (last_backfill_epoch_secs s));
               s = (if cooldown_passed then s\<lparr>last_backfill_epoch_secs := unix_secs now\<rparr> else s)
           in record_call (MarkStableAndBackfill digests cooldown_passed (ba_full_snapshot b)) (ack_pinned_mirror n s)
         else send_reconcile_complete (ba_full_snapshot b) (ack_pinned_mirror n s))"

definition handle_blobs_available ::
  "hex_crate \<Rightarrow> clocks \<Rightarrow> blobs_available_notification \<Rightarrow> 'cb worker_connection \<Rightarrow> 'cb worker_connection" where
  "handle_blobs_available hx now n s =
     (let s = replace_advertised_pins hx now n s;
          s = s\<lparr>conn_calls := conn_calls s @ handler_calls hx (has_worker_proxy s) n\<rparr>
      in case conn_locality_map s of
           None \<Rightarrow> send_reconcile_complete (n_is_full_snapshot n) (ack_pinned_mirror n s)
         | Some m \<Rightarrow>
             if report_endpoint s n = [] then send_reconcile_complete (n_is_full_snapshot n) (ack_pinned_mirror n s)
             else
               let b = decode_blobs_available hx n
               in follow_up now n b (s\<lparr>conn_locality_map := Some (apply_blobs_available (report_endpoint s n) b m)\<rparr>))"

lemmas follow_up_defs = follow_up_def send_reconcile_complete_def ack_pinned_mirror_def record_call_def Let_def

lemma follow_up_frame [frame_simps, simp]:
  "conn_accumulator (follow_up now n b s) = conn_accumulator s"
  "conn_accumulator (send_reconcile_complete full s) = conn_accumulator s"
  "conn_accumulator (ack_pinned_mirror n s) = conn_accumulator s"
  "conn_locality_map (follow_up now n b s) = conn_locality_map s"
  "conn_locality_map (send_reconcile_complete full s) = conn_locality_map s"
  "conn_locality_map (ack_pinned_mirror n s) = conn_locality_map s"
  by (simp_all add: follow_up_defs)

section \<open>Receiving chunks\<close>

record blobs_available_ack =
  ack_broadcast_id :: u64
  ack_sequence :: u32
  ack_worker_instance_token :: u64

text \<open>The acknowledgement that is sent, the notification that is handed on, and the connection.\<close>

definition serve_chunk ::
  "hex_crate \<Rightarrow> clocks \<Rightarrow> 'cb worker_connection \<Rightarrow> blobs_available_chunk \<Rightarrow>
    blobs_available_ack list \<times> blobs_available_notification list \<times> 'cb worker_connection" where
  "serve_chunk hx now s chunk =
     (let ack = \<lparr>ack_broadcast_id = c_broadcast_id chunk, ack_sequence = c_sequence chunk,
                 ack_worker_instance_token = c_worker_instance_token chunk\<rparr>
      in case merge_chunk_outcome (conn_accumulator s) chunk of
           (Accepted maybe_notification, acc) \<Rightarrow>
             let s = s\<lparr>conn_accumulator := acc\<rparr>
             in (case maybe_notification of
                   Some notification \<Rightarrow> ([ack], [notification], handle_blobs_available hx now notification s)
                 | None \<Rightarrow> ([ack], [], s))
         | (Dropped, acc) \<Rightarrow> ([], [], s\<lparr>conn_accumulator := acc\<rparr>))"

fun serve_chunks ::
  "hex_crate \<Rightarrow> clocks \<Rightarrow> 'cb worker_connection \<Rightarrow> blobs_available_chunk list \<Rightarrow>
    blobs_available_ack list \<times> blobs_available_notification list \<times> 'cb worker_connection" where
  "serve_chunks hx now s [] = ([], [], s)"
| "serve_chunks hx now s (c # cs) =
     (case serve_chunk hx now s c of (acks, handled, s1) \<Rightarrow>
      case serve_chunks hx now s1 cs of (acks', handled', s2) \<Rightarrow> (acks @ acks', handled @ handled', s2))"

definition ack_of :: "blobs_available_chunk \<Rightarrow> blobs_available_ack" where
  "ack_of c = \<lparr>ack_broadcast_id = c_broadcast_id c, ack_sequence = c_sequence c,
               ack_worker_instance_token = c_worker_instance_token c\<rparr>"

lemma handle_accumulator [frame_simps, simp]: "conn_accumulator (handle_blobs_available hx now n s) = conn_accumulator s"
  by (simp add: handle_blobs_available_def replace_advertised_pins_def Let_def split: option.split)

lemma serve_chunk_eq:
  "serve_chunk hx now s c =
    (case merge_chunk_outcome (conn_accumulator s) c of
       (Accepted (Some n), acc) \<Rightarrow> ([ack_of c], [n], handle_blobs_available hx now n (s\<lparr>conn_accumulator := acc\<rparr>))
     | (Accepted None, acc) \<Rightarrow> ([ack_of c], [], s\<lparr>conn_accumulator := acc\<rparr>)
     | (Dropped, acc) \<Rightarrow> ([], [], s\<lparr>conn_accumulator := acc\<rparr>))"
  by (simp add: serve_chunk_def ack_of_def Let_def split: merge_outcome.split option.split prod.split)

text \<open>The acknowledgements and notifications of a run are read off the outcomes of the accumulator.\<close>

fun acks_of :: "blobs_available_chunk list \<Rightarrow> merge_outcome list \<Rightarrow> blobs_available_ack list" where
  "acks_of (c # cs) (Accepted _ # rs) = ack_of c # acks_of cs rs"
| "acks_of (c # cs) (Dropped # rs) = acks_of cs rs"
| "acks_of _ _ = []"

fun handled_of :: "merge_outcome list \<Rightarrow> blobs_available_notification list" where
  "handled_of (Accepted (Some n) # rs) = n # handled_of rs"
| "handled_of (_ # rs) = handled_of rs"
| "handled_of [] = []"

lemma serve_chunks_eq:
  "fst (serve_chunks hx now s cs) = acks_of cs (fst (merge_chunks (conn_accumulator s) cs))"
  "fst (snd (serve_chunks hx now s cs)) = handled_of (fst (merge_chunks (conn_accumulator s) cs))"
  "conn_accumulator (snd (snd (serve_chunks hx now s cs))) = snd (merge_chunks (conn_accumulator s) cs)"
proof (induction cs arbitrary: s)
  case (Cons c cs)
  {
    case 1
    show ?case using Cons(1)
      by (simp add: serve_chunk_eq case_prod_beta split: merge_outcome.split option.split)
  next
    case 2
    show ?case using Cons(2)
      by (simp add: serve_chunk_eq case_prod_beta split: merge_outcome.split option.split)
  next
    case 3
    show ?case using Cons(3)
      by (simp add: serve_chunk_eq case_prod_beta split: merge_outcome.split option.split)
  }
qed simp_all

lemma serve_chunks_none_handled:
  assumes "fst (snd (serve_chunks hx now s cs)) = []"
  shows "snd (snd (serve_chunks hx now s cs)) = s\<lparr>conn_accumulator := snd (merge_chunks (conn_accumulator s) cs)\<rparr>"
  using assms
proof (induction cs arbitrary: s)
  case (Cons c cs)
  then show ?case
    by (auto simp: serve_chunk_eq case_prod_beta split: merge_outcome.splits option.splits)
qed simp

end
