(* ===== verification/Blob_Changes.thy ===== *)
theory Blob_Changes
  imports Blob_Locality
begin

text \<open>
  The worker's record of what changed in its store since the last report, from
  \<^verbatim>\<open>nativelink-worker/src/local_worker.rs\<close>: \<^verbatim>\<open>BlobChanges\<close> keeps for each digest the newest event, by the
  stamp of the event, and the callbacks of the store feed it in whatever order they run. The wake-up
  of the reporting loop is the result of an operation.
\<close>

section \<open>Changes\<close>

datatype blob_state = Present | Absent

type_synonym blob_changes = "digest_info \<rightharpoonup> blob_state \<times> stamp"

definition blob_changes_apply :: "digest_info \<Rightarrow> blob_state \<Rightarrow> stamp \<Rightarrow> blob_changes \<Rightarrow> bool \<times> blob_changes" where
  "blob_changes_apply digest state stamp entries =
     (case entries digest of
        Some (stored_state, stored_stamp) \<Rightarrow>
          let newer = stamp_gt stamp stored_stamp;
              tie_absent_wins = (stamp_eq_ts stamp stored_stamp \<and> state = Absent \<and> stored_state = Present)
          in if newer \<or> tie_absent_wins then (True, entries(digest \<mapsto> (state, stamp))) else (False, entries)
      | None \<Rightarrow> (True, entries(digest \<mapsto> (state, stamp))))"

section \<open>The tracker\<close>

datatype store_key = KeyDigest digest_info | KeyStr string

datatype store_event = Evicted store_key u64 u64 | Inserted store_key u64 u64 | Read store_key u64 u64 | Pinned store_key u64 u64

text \<open>The callbacks for an eviction, an insert, a read and an indefinite pin; keys that are not digests are ignored.\<close>

definition record_change :: "store_key \<Rightarrow> blob_state \<Rightarrow> u64 \<Rightarrow> u64 \<Rightarrow> blob_changes \<Rightarrow> bool \<times> blob_changes" where
  "record_change key state ts_boot ts_count pending =
     (case key of
        KeyDigest digest \<Rightarrow> blob_changes_apply digest state \<lparr>boot_epoch = ts_boot, counter = ts_count\<rparr> pending
      | KeyStr _ \<Rightarrow> (False, pending))"

fun on_store_event :: "store_event \<Rightarrow> blob_changes \<Rightarrow> bool \<times> blob_changes" where
  "on_store_event (Evicted key b k) pending = record_change key Absent b k pending"
| "on_store_event (Inserted key b k) pending = record_change key Present b k pending"
| "on_store_event (Read key b k) pending = record_change key Present b k pending"
| "on_store_event (Pinned key b k) pending = record_change key Present b k pending"

text \<open>Taking the changes out; \<open>order\<close> is the order in which the hash map is walked.\<close>

definition swap :: "digest_info list \<Rightarrow> blob_changes \<Rightarrow> (digest_info \<times> blob_state \<times> stamp) list \<times> blob_changes" where
  "swap order pending =
     (List.map_filter (\<lambda>d. map_option (\<lambda>(state, stamp). (d, state, stamp)) (pending d)) order, Map.empty)"

section \<open>The last writer wins\<close>

definition beats :: "blob_state \<times> stamp \<Rightarrow> blob_state \<times> stamp \<Rightarrow> bool" where
  "beats x y \<longleftrightarrow> stamp_gt (snd x) (snd y) \<or> stamp_eq_ts (snd x) (snd y) \<and> fst x = Absent \<and> fst y = Present"

definition keep_newer :: "blob_state \<times> stamp \<Rightarrow> (blob_state \<times> stamp) option \<Rightarrow> (blob_state \<times> stamp) option" where
  "keep_newer x old = (case old of None \<Rightarrow> Some x | Some y \<Rightarrow> if beats x y then Some x else Some y)"

lemma blob_changes_apply_eq: "snd (blob_changes_apply d st s m) = m(d := keep_newer (st, s) (m d))"
  by (cases "m d") (auto simp: blob_changes_apply_def keep_newer_def beats_def Let_def map_upd_triv)

lemma beats_total: "x = y \<or> beats x y \<or> beats y x"
proof -
  obtain st s where x: "x = (st, s)" by fastforce
  obtain st' s' where y: "y = (st', s')" by fastforce
  have "s = s'" if "stamp_eq_ts s s'" using that by (cases s; cases s') (simp add: stamp_eq_ts_def)
  moreover have "stamp_eq_ts s s' \<or> stamp_gt s s' \<or> stamp_gt s' s"
    by (auto simp: stamp_eq_ts_def stamp_gt_def not_less_iff_gr_or_eq)
  moreover have "st = st' \<or> st = Absent \<and> st' = Present \<or> st = Present \<and> st' = Absent"
    by (cases st; cases st') simp_all
  ultimately show ?thesis by (auto simp: beats_def x y stamp_eq_ts_def)
qed

lemma beats_trans: "beats x y \<Longrightarrow> beats y z \<Longrightarrow> beats x z"
  by (auto simp: beats_def stamp_gt_def stamp_eq_ts_def)

lemma beats_irrefl: "\<not> beats x x"
  by (simp add: beats_def stamp_gt_def)

lemma beats_asym: "beats x y \<Longrightarrow> \<not> beats y x"
  using beats_trans [of x y x] beats_irrefl by blast

lemma keep_newer_commute: "keep_newer x (keep_newer y m) = keep_newer y (keep_newer x m)"
proof (cases m)
  case None
  then show ?thesis using beats_total [of x y] beats_asym [of x y] by (auto simp: keep_newer_def)
next
  case (Some z)
  have yx: "beats y x \<longleftrightarrow> x \<noteq> y \<and> \<not> beats x y" using beats_total [of x y] beats_asym [of x y] beats_irrefl by blast
  have "\<not> beats x y" if "beats y z" "\<not> beats x z" using that beats_trans [of x y z] by blast
  moreover have "\<not> beats y x" if "beats x z" "\<not> beats y z" using that beats_trans [of y x z] by blast
  ultimately show ?thesis
    using Some yx by (cases "beats x z"; cases "beats y z") (simp_all add: keep_newer_def)
qed

definition event_change :: "store_event \<Rightarrow> (digest_info \<times> blob_state \<times> stamp) option" where
  "event_change e =
     (case e of
        Evicted (KeyDigest d) b k \<Rightarrow> Some (d, Absent, \<lparr>boot_epoch = b, counter = k\<rparr>)
      | Inserted (KeyDigest d) b k \<Rightarrow> Some (d, Present, \<lparr>boot_epoch = b, counter = k\<rparr>)
      | Read (KeyDigest d) b k \<Rightarrow> Some (d, Present, \<lparr>boot_epoch = b, counter = k\<rparr>)
      | Pinned (KeyDigest d) b k \<Rightarrow> Some (d, Present, \<lparr>boot_epoch = b, counter = k\<rparr>)
      | _ \<Rightarrow> None)"

lemma on_store_event_eq:
  "snd (on_store_event e m) =
    (case event_change e of None \<Rightarrow> m | Some (d, x) \<Rightarrow> m(d := keep_newer x (m d)))"
  by (cases e) (auto simp: record_change_def event_change_def blob_changes_apply_eq split: store_key.split)

definition run_events :: "store_event list \<Rightarrow> blob_changes \<Rightarrow> blob_changes" where
  "run_events es m = fold (\<lambda>e m. snd (on_store_event e m)) es m"

lemma on_store_event_commute:
  "snd (on_store_event e (snd (on_store_event e' m))) = snd (on_store_event e' (snd (on_store_event e m)))"
proof (cases "event_change e"; cases "event_change e'")
  fix x y assume "event_change e = Some x" "event_change e' = Some y"
  then show ?thesis
    using keep_newer_commute [of "snd x" "snd y"]
    by (cases "fst x = fst y") (auto simp: on_store_event_eq case_prod_beta fun_eq_iff)
qed (simp_all add: on_store_event_eq)

lemma run_events_newest:
  "run_events es m d = Some x \<Longrightarrow> (m d = Some x \<or> (\<exists>e \<in> set es. event_change e = Some (d, x))) \<and>
    (\<forall>y. m d = Some y \<or> (\<exists>e \<in> set es. event_change e = Some (d, y)) \<longrightarrow> \<not> beats y x)"
proof (induction es arbitrary: m)
  case Nil
  then show ?case by (auto simp: run_events_def beats_irrefl)
next
  case (Cons e es)
  let ?m = "snd (on_store_event e m)"
  have ih: "(?m d = Some x \<or> (\<exists>e \<in> set es. event_change e = Some (d, x))) \<and>
    (\<forall>y. ?m d = Some y \<or> (\<exists>e \<in> set es. event_change e = Some (d, y)) \<longrightarrow> \<not> beats y x)"
    using Cons by (simp add: run_events_def)
  then have newest: "\<not> beats y x" if "?m d = Some y \<or> (\<exists>e \<in> set es. event_change e = Some (d, y))" for y
    using that by blast
  show ?case
  proof (cases "\<exists>z. event_change e = Some (d, z)")
    case True
    then obtain z where z: "event_change e = Some (d, z)" by blast
    then have md: "?m d = keep_newer z (m d)" by (simp add: on_store_event_eq)
    then have now: "?m d = Some z \<or> ?m d = m d \<and> m d \<noteq> None" by (cases "m d") (simp_all add: keep_newer_def)
    have "\<not> beats z x \<and> (\<forall>w. m d = Some w \<longrightarrow> \<not> beats w x)"
    proof (cases "m d")
      case None
      then show ?thesis using newest [of z] now by simp
    next
      case (Some w)
      show ?thesis
      proof (cases "beats z w")
        case True
        then have "\<not> beats z x" by (intro newest) (simp add: md Some keep_newer_def)
        then show ?thesis using True Some beats_trans [of z w x] by auto
      next
        case False
        then have "\<not> beats w x" by (intro newest) (simp add: md Some keep_newer_def)
        then show ?thesis using False Some beats_trans [of w z x] beats_total [of z w] by auto
      qed
    qed
    moreover have "m d = Some x \<or> z = x \<or> (\<exists>e \<in> set es. event_change e = Some (d, x))" using ih now by auto
    ultimately show ?thesis using z newest by simp blast
  next
    case False
    then have "?m d = m d" by (auto simp: on_store_event_eq split: option.split)
    then show ?thesis using ih False by (simp only: set_simps bex_simps ball_simps) blast
  qed
qed

lemma run_events_None: "run_events es m d = None \<longleftrightarrow> m d = None \<and> (\<forall>e \<in> set es. \<forall>x. event_change e \<noteq> Some (d, x))"
proof (induction es arbitrary: m)
  case (Cons e es)
  have "snd (on_store_event e m) d = None \<longleftrightarrow> m d = None \<and> (\<forall>x. event_change e \<noteq> Some (d, x))"
    by (auto simp: on_store_event_eq keep_newer_def split: option.split)
  then show ?case using Cons [of "snd (on_store_event e m)"] by (auto simp: run_events_def)
qed (simp add: run_events_def)

text \<open>C19. What the tracker reports does not depend on the order in which the callbacks of the store run: any
  permutation of the events leaves the same changes, and each digest is reported with an event of its
  own that no other event of it beats, a later stamp or an eviction at the same stamp.\<close>

theorem tracker_last_writer_wins:
  assumes "mset es = mset es'"
  shows "run_events es Map.empty = run_events es' Map.empty \<and>
    (case run_events es Map.empty d of
       None \<Rightarrow> \<not> (\<exists>e x. e \<in> set es \<and> event_change e = Some (d, x))
     | Some x \<Rightarrow> (\<exists>e. e \<in> set es \<and> event_change e = Some (d, x)) \<and>
         \<not> (\<exists>e y. e \<in> set es \<and> event_change e = Some (d, y) \<and> beats y x))"
proof (rule conjI)
  let ?f = "\<lambda>e m. snd (on_store_event e m)"
  have "?f e \<circ> ?f e' = ?f e' \<circ> ?f e" for e e' by (rule ext) (simp add: on_store_event_commute)
  then have "fold ?f es = fold ?f es'" using assms by (intro fold_multiset_equiv) blast+
  then show "run_events es Map.empty = run_events es' Map.empty" by (simp only: run_events_def)
  show "case run_events es Map.empty d of
      None \<Rightarrow> \<not> (\<exists>e x. e \<in> set es \<and> event_change e = Some (d, x))
         | Some x \<Rightarrow> (\<exists>e. e \<in> set es \<and> event_change e = Some (d, x)) \<and>
             \<not> (\<exists>e y. e \<in> set es \<and> event_change e = Some (d, y) \<and> beats y x)"
  proof (cases "run_events es Map.empty d")
    case None
    then show ?thesis using run_events_None [of es Map.empty d] by (auto simp del: split_paired_Ex split_paired_All)
  next
    case (Some x)
    then show ?thesis using run_events_newest [OF Some] by (simp del: split_paired_Ex split_paired_All) blast
  qed
qed

theorem tracker_last_writer_wins_witness:
  "run_events [Inserted (KeyDigest demo_digest) 7 2, Evicted (KeyDigest demo_digest) 7 1] Map.empty =
   run_events [Evicted (KeyDigest demo_digest) 7 1, Inserted (KeyDigest demo_digest) 7 2] Map.empty"
  using tracker_last_writer_wins [of "[Inserted (KeyDigest demo_digest) 7 2, Evicted (KeyDigest demo_digest) 7 1]"
      "[Evicted (KeyDigest demo_digest) 7 1, Inserted (KeyDigest demo_digest) 7 2]"]
  by (simp add: add_mset_commute)

end
