(* ===== verification/Blobs_Broadcast_Props.thy ===== *)
theory Blobs_Broadcast_Props
  imports Blobs_Broadcast
begin

text \<open>
  The properties of a chunked broadcast: the chunker cuts a notification without loss, the accumulator
  stays within its caps and never hands on a partial broadcast, and what the worker sends is what the
  server hands on. One size of broadcast falls between the two sides: the chunker sends it and the
  accumulator always drops it.
\<close>

section \<open>The chunker\<close>

lemma length_cut_sources_le:
  assumes "0 < k"
  shows "length (cut_sources k s) \<le> 256 \<longleftrightarrow> sources_size s \<le> 256 * k"
proof -
  have "(sources_size s + k - 1) div k < 257 \<longleftrightarrow> sources_size s + k - 1 < 257 * k"
    using assms by (rule div_less_iff_less_mult)
  then show ?thesis using assms by (auto simp: length_cut_sources)
qed

lemma chunker_total:
  "sources_size (sources_of n) \<le> 256 * max k 1 \<Longrightarrow> \<exists>cs. chunk_blobs_available n b t st k = Inr cs"
  using length_cut_sources_le [of "max k 1" "sources_of n"] by (simp add: chunk_blobs_available_eq Let_def not_less)

text \<open>C12. The chunker always ends, with the error when the entries do not fit into 256 chunks and otherwise
  with the fewest chunks that hold them: joined in order their payloads are the notification's
  entries, they are numbered from zero, only the last one is marked, and all but the last are full.\<close>

theorem chunk_blobs_available_partition:
  "let k' = max k 1; entries = sources_size (sources_of n)
   in if 256 * k' < entries then chunk_blobs_available n b t st k = Inl too_many_chunks
      else \<exists>cs. chunk_blobs_available n b t st k = Inr cs \<and>
        length cs = max 1 ((entries + k' - 1) div k') \<and> length cs \<le> 256 \<and>
        join_sources (map payload cs) = sources_of n \<and>
        map (unat \<circ> c_sequence) cs = [0..<length cs] \<and>
        map c_is_last cs = replicate (length cs - 1) False @ [True] \<and>
        list_all (\<lambda>c. entries_in_chunk c = k') (butlast cs) \<and> entries_in_chunk (last cs) \<le> k'"
proof (cases "256 * max k 1 < sources_size (sources_of n)")
  case True
  then show ?thesis
    using length_cut_sources_le [of "max k 1" "sources_of n"] by (simp add: chunk_blobs_available_eq Let_def not_le)
next
  case False
  let ?k = "max k 1" and ?s = "sources_of n"
  obtain cs where cs: "chunk_blobs_available n b t st k = Inr cs" using False chunker_total by (metis not_le)
  then have eq: "cs = number_chunks n b t st 0 (cut_sources ?k ?s)"
    by (simp add: chunk_blobs_available_eq Let_def split: if_splits)
  note c = chunker_chunks [OF cs]
  have size: "entries_in_chunk (cs ! i) \<le> ?k \<and> (Suc i < length cs \<longrightarrow> entries_in_chunk (cs ! i) = ?k)"
    if "i < length cs" for i
  proof -
    have "entries_in_chunk (cs ! i) = sources_size (map payload cs ! i)"
      using that by (simp add: entries_in_chunk_payload)
    moreover have "map payload cs = cut_sources ?k ?s" by (simp add: eq)
    ultimately show ?thesis using cut_sources_sizes [of ?k i ?s] that by (simp add: eq)
  qed
  have "map c_is_last cs = map c_is_last (butlast cs) @ [c_is_last (last cs)]"
    using c(1) by (metis append_butlast_last_id list.simps(8,9) map_append)
  also have "map c_is_last (butlast cs) = replicate (length cs - 1) False"
    using c(7) by (intro replicate_eqI) (auto simp: in_set_conv_nth)
  finally have last: "map c_is_last cs = replicate (length cs - 1) False @ [True]" using c(8) by simp
  have full: "list_all (\<lambda>c. entries_in_chunk c = ?k) (butlast cs)" "entries_in_chunk (last cs) \<le> ?k"
    using size c(1) by (auto simp: list_all_length nth_butlast last_conv_nth)
  have "length cs = max 1 ((sources_size ?s + ?k - 1) div ?k)" by (simp add: eq length_cut_sources)
  then show ?thesis
    unfolding Let_def if_not_P [OF False] using cs c(2-4) last full by blast
qed

section \<open>The accumulator\<close>

text \<open>C14. Whatever chunks arrive on a connection, at most eight broadcasts are in flight, the counted entries
  are exactly the entries that are buffered, and they are at most a million.\<close>

theorem accumulator_bounded:
  "let s = conn_run (accumulator_new_with_drop_counts k) evs
   in card (dom (broadcasts s)) \<le> 8 \<and>
      total_accumulated s = (\<Sum>b \<in> dom (broadcasts s). sources_size (sources_of (a_body (the (broadcasts s b))))) \<and>
      total_accumulated s \<le> 1000000"
proof -
  let ?s = "conn_run (accumulator_new_with_drop_counts k) evs"
  note inv = conn_run_inv [of evs k]
  have "accumulated_entries a = sources_size (sources_of (a_body a))" if known: "broadcasts ?s b = Some a" for a b
  proof -
    obtain cs where g: "gathered a cs" using conn_inv_in_flight [OF inv known] by blast
    have "sources_of (body_of p) = p" for p by (simp add: sources_of_def body_of_def notification_default_def)
    then show ?thesis
      using g by (simp add: gathered_def size_join_sources entries_in_chunk_payload [abs_def] comp_def)
  qed
  then have "entries_of (broadcasts ?s) =
    (\<Sum>b \<in> dom (broadcasts ?s). sources_size (sources_of (a_body (the (broadcasts ?s b)))))"
    unfolding entries_of_def by (intro sum.cong) auto
  then show ?thesis
    using conn_invD [OF inv]
    by (simp add: Let_def MAX_INFLIGHT_BROADCASTS_PER_CONN_def MAX_ACCUMULATED_ENTRIES_PER_CONN_def)
qed


section \<open>From the worker to the server\<close>

lemma conn_run_has_none: "broadcasts s b = None \<Longrightarrow> has_gathered s b []"
  by (simp add: has_gathered_def)

lemma chunked_broadcast:
  assumes "chunk_blobs_available n b t st k = Inr cs" "k \<le> MAX_ENTRIES_PER_CHUNK" "t \<noteq> 0" "conn_inv hist s"
    "broadcasts s b = None" "card (dom (broadcasts s)) < MAX_INFLIGHT_BROADCASTS_PER_CONN"
    "total_accumulated s + sources_size (sources_of n) \<le> MAX_ACCUMULATED_ENTRIES_PER_CONN"
  shows "fst (merge_chunks s cs) = replicate (length cs - 1) (Accepted None) @ [Accepted (Some (canonical n))] \<and>
    broadcasts (snd (merge_chunks s cs)) = broadcasts s \<and>
    total_accumulated (snd (merge_chunks s cs)) = total_accumulated s"
proof -
  note c = chunker_chunks [OF assms(1)] and d = chunker_complete [OF assms(1)]
  have split: "butlast cs @ [last cs] = cs" using c(1) by simp
  have "\<exists>r. fst (merge_chunks s (butlast cs @ [last cs])) = replicate (length (butlast cs)) (Accepted None) @ [r] \<and>
    (if complete ([] @ butlast cs @ [last cs])
     then \<exists>n. r = Accepted (Some n) \<and> put_together ([] @ butlast cs @ [last cs]) n else r = Dropped) \<and>
    core ((broadcasts s)(b := None)) (snd (merge_chunks s (butlast cs @ [last cs])))"
    using assms(2-7) c d
    by (intro receive_all [where t = t and st = st and full = "n_is_full_snapshot n" and hist = hist])
      (simp_all add: conn_run_has_none split)
  then obtain n' where "fst (merge_chunks s cs) = replicate (length (butlast cs)) (Accepted None) @ [Accepted (Some n')]"
    "put_together cs n'" and core: "core ((broadcasts s)(b := None)) (snd (merge_chunks s cs))"
    unfolding split append_Nil if_P [OF d(2)] by blast
  then show ?thesis
    using put_together_canonical [OF assms(1)] conn_invD(3) [OF assms(4)] assms(5)
    by (simp add: core_def fun_upd_idem del: fun_upd_apply)
qed

text \<open>C5. A notification that is cut into chunks and whose chunks arrive in order on a connection with room
  for them is handed on by the accumulator exactly once, on the last chunk, with every field as the
  worker set it, legacy digests in their stamped form; every earlier chunk is accepted, and the
  connection is left as it was.\<close>

theorem chunked_broadcast_roundtrip:
  assumes "chunk_blobs_available n b t st k = Inr cs" "k \<le> 8192" "t \<noteq> 0"
    and "s = conn_run (accumulator_new_with_drop_counts d) evs"
    and "broadcasts s b = None" "card (dom (broadcasts s)) < 8"
    and "total_accumulated s + sources_size (sources_of n) \<le> 1000000"
  shows "fst (merge_chunks s cs) = replicate (length cs - 1) (Accepted None) @ [Accepted (Some (canonical n))] \<and>
    broadcasts (snd (merge_chunks s cs)) = broadcasts s \<and>
    total_accumulated (snd (merge_chunks s cs)) = total_accumulated s"
  using assms(2-7) conn_run_inv [of evs d]
  by (intro chunked_broadcast [OF assms(1)])
    (simp_all add: MAX_ENTRIES_PER_CHUNK_def MAX_INFLIGHT_BROADCASTS_PER_CONN_def MAX_ACCUMULATED_ENTRIES_PER_CONN_def)

lemma merge_chunks_commit:
  assumes "conn_inv hist s" "made_from ds b s" "\<forall>c \<in> set cs. c_broadcast_id c = b"
    "i < length cs" "fst (merge_chunks s cs) ! i = Accepted (Some n)"
  shows "\<exists>gs. subseq gs (ds @ take i cs) \<and> complete (gs @ [cs ! i]) \<and> c_is_last (cs ! i) \<and>
    payload_entries (gs @ [cs ! i]) \<le> MAX_ACCUMULATED_ENTRIES_PER_CONN"
  using assms
proof (induction cs arbitrary: s ds hist i)
  case (Cons c cs)
  note m = merge_chunk_outcome_made_from [OF Cons.prems(1,2), of c]
  show ?case
  proof (cases i)
    case 0
    then show ?thesis using Cons.prems(3,5) m(2) [of n] by (auto simp: case_prod_beta)
  next
    case (Suc j)
    have "\<exists>gs. subseq gs ((ds @ [c]) @ take j cs) \<and> complete (gs @ [cs ! j]) \<and> c_is_last (cs ! j) \<and>
      payload_entries (gs @ [cs ! j]) \<le> MAX_ACCUMULATED_ENTRIES_PER_CONN"
      using Cons.prems m(1) Suc
      by (intro Cons.IH [OF merge_chunk_outcome_inv [OF Cons.prems(1), of c]]) (simp_all add: case_prod_beta)
    then show ?thesis using Suc by simp
  qed
qed simp

lemma complete_is_all:
  assumes "chunk_blobs_available n b t st k = Inr cs" "i < length cs" "c_is_last (cs ! i)"
    "subseq gs (take i cs)" "complete (gs @ [cs ! i])"
  shows "gs @ [cs ! i] = cs"
proof -
  note c = chunker_chunks [OF assms(1)]
  have i: "i = length cs - 1"
  proof (rule ccontr)
    assume "i \<noteq> length cs - 1"
    then have "i < length (butlast cs)" using assms(2) by simp
    then show False using c(7) assms(3) by (metis nth_butlast nth_mem)
  qed
  have "unat (c_sequence (cs ! i)) = i" using c(3) assms(2) by (metis add.left_neutral comp_apply nth_map nth_upt)
  then have "i \<in> {..<length (gs @ [cs ! i])}" using assms(5) unfolding complete_def by force
  moreover have "length gs \<le> length (take i cs)" using assms(4) by (rule list_emb_length)
  ultimately have "length gs = length (take i cs)" using assms(2) by simp
  then have "gs = take i cs" using assms(4) by (rule subseq_same_length [rotated])
  then show ?thesis using assms(2) i by (metis Suc_diff_1 length_pos_if_in_set nth_mem order_refl take_Suc_conv_app_nth take_all)
qed

text \<open>C25. Between the two caps a broadcast is lost: with more than a million entries, but no more than 256 full
  chunks, the chunker hands the chunks out, and no connection that does not know the broadcast yet
  ever hands its notification on.\<close>

theorem oversized_broadcast_is_lost:
  assumes "1000000 < sources_size (sources_of n)" "sources_size (sources_of n) \<le> 256 * max k 1"
    and "broadcasts (conn_run (accumulator_new_with_drop_counts d) evs) b = None"
  shows "\<exists>cs. chunk_blobs_available n b t st k = Inr cs \<and>
    \<not> (\<exists>n'. Accepted (Some n') \<in> set (fst (merge_chunks (conn_run (accumulator_new_with_drop_counts d) evs) cs)))"
proof -
  let ?s = "conn_run (accumulator_new_with_drop_counts d) evs"
  obtain cs where cs: "chunk_blobs_available n b t st k = Inr cs" using chunker_total [OF assms(2)] by blast
  note c = chunker_chunks [OF cs]
  have eq: "cs = number_chunks n b t st 0 (cut_sources (max k 1) (sources_of n))"
    using cs by (simp add: chunk_blobs_available_eq Let_def split: if_splits)
  have ids: "\<forall>c \<in> set cs. c_broadcast_id c = b"
    using c(2) number_chunks_sel(1) [of _ "cut_sources (max k 1) (sources_of n)" 0]
    by (auto simp: eq in_set_conv_nth)
  have len: "length (fst (merge_chunks s xs)) = length xs" for s xs
    by (induction xs arbitrary: s) (simp_all add: case_prod_beta)
  have "\<not> (\<exists>n'. Accepted (Some n') \<in> set (fst (merge_chunks ?s cs)))"
  proof
    assume "\<exists>n'. Accepted (Some n') \<in> set (fst (merge_chunks ?s cs))"
    then obtain n' i where i: "i < length cs" "fst (merge_chunks ?s cs) ! i = Accepted (Some n')"
      by (auto simp: in_set_conv_nth len)
    have "made_from [] b ?s" using assms(3) by (simp add: made_from_def)
    then obtain gs where "subseq gs (take i cs)" "complete (gs @ [cs ! i])" "c_is_last (cs ! i)"
      and few: "payload_entries (gs @ [cs ! i]) \<le> MAX_ACCUMULATED_ENTRIES_PER_CONN"
      using merge_chunks_commit [OF conn_run_inv _ ids i] by (metis append_Nil)
    then have "gs @ [cs ! i] = cs" using complete_is_all [OF cs i(1)] by blast
    then show False
      using few chunker_complete(3) [OF cs] assms(1) by (simp add: MAX_ACCUMULATED_ENTRIES_PER_CONN_def)
  qed
  then show ?thesis using cs by blast
qed

section \<open>Examples\<close>

definition demo_proto :: proto_digest where
  "demo_proto = \<lparr>pd_hash = ''a0'', pd_size_bytes = 3\<rparr>"

text \<open>Three entries, which take two chunks of two.\<close>

definition demo_notification :: blobs_available_notification where
  "demo_notification = notification_default\<lparr>n_worker_cas_endpoint := ''w1'', n_digests := [demo_proto],
     n_digest_infos := [legacy_info demo_proto, legacy_info demo_proto], n_is_full_snapshot := True\<rparr>"

lemma demo_size: "sources_size (sources_of demo_notification) = 3"
  by (simp add: demo_notification_def sources_of_def sources_size_def notification_default_def)

lemma demo_two_chunks: "\<exists>c0 c1. chunk_blobs_available demo_notification 1 7 [] 2 = Inr [c0, c1]"
proof -
  obtain cs where cs: "chunk_blobs_available demo_notification 1 7 [] 2 = Inr cs"
    using chunker_total [of demo_notification 2 1 7 "[]"] by (auto simp: demo_size)
  then have "length cs = 2"
    by (auto simp: chunk_blobs_available_eq Let_def length_cut_sources demo_size numeral_2_eq_2 [symmetric]
        split: if_splits)
  then show ?thesis using cs by (auto simp: numeral_2_eq_2 length_Suc_conv)
qed

lemma demo_accumulator: "conn_run (accumulator_new_with_drop_counts drop_counts_default) [] = accumulator_new"
  "broadcasts accumulator_new = Map.empty" "total_accumulated accumulator_new = 0"
  by (simp_all add: conn_run_def accumulator_new_def accumulator_new_with_drop_counts_def)

theorem chunked_broadcast_roundtrip_witness:
  "\<exists>c0 c1. chunk_blobs_available demo_notification 1 7 [] 2 = Inr [c0, c1] \<and>
    fst (merge_chunks accumulator_new [c0, c1]) = [Accepted None, Accepted (Some (canonical demo_notification))]"
proof -
  obtain c0 c1 where cs: "chunk_blobs_available demo_notification 1 7 [] 2 = Inr [c0, c1]" using demo_two_chunks by blast
  then show ?thesis
    using chunked_broadcast_roundtrip [OF cs _ _ demo_accumulator(1) [symmetric]] demo_accumulator(2,3) demo_size by auto
qed



definition demo_oversized :: blobs_available_notification where
  "demo_oversized = notification_default\<lparr>n_digests := replicate 1000001 demo_proto\<rparr>"

lemma demo_oversized_size: "sources_size (sources_of demo_oversized) = 1000001"
  unfolding demo_oversized_def sources_of_def sources_size_def notification_default_def
  by (simp only: blobs_available_notification.simps chunk_sources.select_convs append_Nil length_map length_replicate list.size add_0_right)

theorem oversized_broadcast_is_lost_witness:
  "\<exists>cs. chunk_blobs_available demo_oversized 1 7 [] BLOBS_AVAILABLE_PER_CHUNK = Inr cs \<and>
    \<not> (\<exists>n'. Accepted (Some n') \<in> set (fst (merge_chunks (conn_run (accumulator_new_with_drop_counts drop_counts_default) []) cs)))"
  by (rule oversized_broadcast_is_lost)
    (simp_all add: demo_oversized_size BLOBS_AVAILABLE_PER_CHUNK_def demo_accumulator)

end
