(* ===== verification/Blobs_Resend.thy ===== *)
theory Blobs_Resend
  imports Worker_Connection Blob_Changes Blobs_Broadcast_Props "HOL-Library.Product_Lexorder"
begin

text \<open>
  The worker's end of a notification stream, from \<^verbatim>\<open>nativelink-worker/src/local_worker.rs\<close>: deltas are
  cut into chunks, each chunk that was sent is kept until the server acknowledges it, and on every
  tick the chunks still kept are sent again. The buffer is a \<^verbatim>\<open>BTreeMap\<close>, so it is walked in the order of
  broadcast and sequence number. A send is a call of the gRPC client, whose result is a parameter:
  \<open>tx i\<close> is the result of the \<open>i\<close>-th send of a call.
\<close>

section \<open>The resend buffer\<close>

type_synonym resend_buffer = "u64 \<times> u32 \<rightharpoonup> blobs_available_chunk"

definition BLOBS_AVAILABLE_RESEND_MAX_CHUNKS :: nat where
  "BLOBS_AVAILABLE_RESEND_MAX_CHUNKS = 256"

definition resend_add :: "blobs_available_chunk \<Rightarrow> resend_buffer \<Rightarrow> bool \<times> resend_buffer" where
  "resend_add chunk chunks =
     (if BLOBS_AVAILABLE_RESEND_MAX_CHUNKS \<le> card (dom chunks) then (True, Map.empty)
      else (False, chunks((c_broadcast_id chunk, c_sequence chunk) \<mapsto> chunk)))"

definition resend_ack :: "u64 \<Rightarrow> u32 \<Rightarrow> resend_buffer \<Rightarrow> resend_buffer" where
  "resend_ack broadcast_id sequence chunks = chunks((broadcast_id, sequence) := None)"

definition unacked_chunks :: "resend_buffer \<Rightarrow> blobs_available_chunk list" where
  "unacked_chunks chunks = List.map_filter chunks (sorted_list_of_set (dom chunks))"

section \<open>The state of the reporting loop\<close>

record blobs_available_state =
  worker_instance_token :: u64
  next_broadcast_id :: u64
  tracker :: blob_changes
  last_sent_ac_pin_set :: "digest_info set"
  blobs_available_skipped_counter :: u64
  blobs_available_resend :: resend_buffer
  blobs_available_force_full_snapshot :: bool

definition buffer_delta_chunk :: "blobs_available_chunk \<Rightarrow> blobs_available_state \<Rightarrow> bool \<times> blobs_available_state" where
  "buffer_delta_chunk chunk st =
     (case resend_add chunk (blobs_available_resend st) of (over_cap, chunks) \<Rightarrow>
        let st = st\<lparr>blobs_available_resend := chunks\<rparr>
        in (over_cap, if over_cap then st\<lparr>blobs_available_force_full_snapshot := True\<rparr> else st))"

definition clear_resend_buffer :: "blobs_available_state \<Rightarrow> blobs_available_state" where
  "clear_resend_buffer st = st\<lparr>blobs_available_resend := Map.empty\<rparr>"

definition handle_blobs_available_ack :: "blobs_available_ack \<Rightarrow> blobs_available_state \<Rightarrow> blobs_available_state" where
  "handle_blobs_available_ack ack st =
     (if ack_worker_instance_token ack = 0 \<or> ack_worker_instance_token ack \<noteq> worker_instance_token st then st
      else st\<lparr>blobs_available_resend := resend_ack (ack_broadcast_id ack) (ack_sequence ack) (blobs_available_resend st)\<rparr>)"

datatype periodic_tick_memo_reset = NoReset | ReconnectClear

definition apply_periodic_tick_memo_resets :: "bool \<Rightarrow> blobs_available_state \<Rightarrow> periodic_tick_memo_reset \<times> blobs_available_state" where
  "apply_periodic_tick_memo_resets is_first st =
     (if is_first then (ReconnectClear, st\<lparr>last_sent_ac_pin_set := {}\<rparr>) else (NoReset, st))"

definition force_ac_pin_resync :: "blobs_available_state \<Rightarrow> blobs_available_state" where
  "force_ac_pin_resync st = st\<lparr>last_sent_ac_pin_set := {}\<rparr>"

definition compute_ac_pin_delta_counts :: "digest_info set \<Rightarrow> digest_info set \<Rightarrow> nat \<times> nat" where
  "compute_ac_pin_delta_counts cur prev = (card (cur - prev), card (prev - cur))"

definition should_skip_blobs_available_tick :: "bool \<Rightarrow> nat \<Rightarrow> nat \<Rightarrow> nat \<Rightarrow> nat \<Rightarrow> nat \<Rightarrow> bool \<Rightarrow> bool" where
  "should_skip_blobs_available_tick is_first new_or_touched evicted added_subtree removed_subtree pinned_mirror
     ac_pin_delta_empty \<longleftrightarrow>
     \<not> is_first \<and> new_or_touched = 0 \<and> evicted = 0 \<and> added_subtree = 0 \<and> removed_subtree = 0 \<and>
     pinned_mirror = 0 \<and> ac_pin_delta_empty"

section \<open>Sending\<close>

datatype worker_update = ChunkedMessage blobs_available_chunk | BlobsAvailable blobs_available_notification

text \<open>What reached the transport, in order.\<close>

fun replay_loop :: "(nat \<Rightarrow> unit result) \<Rightarrow> nat \<Rightarrow> blobs_available_chunk list \<Rightarrow> unit result \<times> worker_update list" where
  "replay_loop tx i [] = (Inr (), [])"
| "replay_loop tx i (chunk # chunks) =
     (case tx i of
        Inl err \<Rightarrow> (Inl err, [])
      | Inr _ \<Rightarrow> (case replay_loop tx (Suc i) chunks of (r, sent) \<Rightarrow> (r, ChunkedMessage chunk # sent)))"

definition replay_unacked_chunks :: "(nat \<Rightarrow> unit result) \<Rightarrow> blobs_available_state \<Rightarrow> unit result \<times> worker_update list" where
  "replay_unacked_chunks tx st =
     (let unacked = unacked_chunks (blobs_available_resend st)
      in if unacked = [] then (Inr (), []) else replay_loop tx 0 unacked)"

fun send_delta_loop ::
  "(nat \<Rightarrow> unit result) \<Rightarrow> nat \<Rightarrow> blobs_available_chunk list \<Rightarrow> blobs_available_state \<Rightarrow>
    unit result \<times> worker_update list \<times> blobs_available_state" where
  "send_delta_loop tx i [] st = (Inr (), [], st)"
| "send_delta_loop tx i (chunk # chunks) st =
     (case tx i of
        Inl err \<Rightarrow> (Inl err, [], st)
      | Inr _ \<Rightarrow>
          (case send_delta_loop tx (Suc i) chunks (snd (buffer_delta_chunk chunk st)) of
             (r, sent, st') \<Rightarrow> (r, ChunkedMessage chunk # sent, st')))"

definition send_post_action_blobs_available_delta ::
  "(nat \<Rightarrow> unit result) \<Rightarrow> blobs_available_notification \<Rightarrow> blobs_available_state option \<Rightarrow>
    unit result \<times> worker_update list \<times> blobs_available_state option" where
  "send_post_action_blobs_available_delta tx n state =
     (case state of
        None \<Rightarrow> (tx 0, (case tx 0 of Inl _ \<Rightarrow> [] | Inr _ \<Rightarrow> [BlobsAvailable n]), None)
      | Some st \<Rightarrow>
          let broadcast_id = next_broadcast_id st;
              st = st\<lparr>next_broadcast_id := broadcast_id + 1\<rparr>
          in case chunk_blobs_available n broadcast_id (worker_instance_token st) [] BLOBS_AVAILABLE_PER_CHUNK of
               Inl _ \<Rightarrow> (Inr (), [], Some st)
             | Inr chunks \<Rightarrow>
                 (case send_delta_loop tx 0 chunks st of (r, sent, st') \<Rightarrow> (r, sent, Some st')))"

section \<open>A tick\<close>

text \<open>
  What a tick reads from the rest of the worker: the store and the order in which the hash map of
  changes is walked, the mirror's changes, the directory cache's subtrees, the pins of the
  action-cache store, and the scalar fields of the report.
\<close>

record tick_inputs =
  ti_all_digests :: "digest_info list"
  ti_order :: "digest_info list"
  ti_mirror_removed :: "digest_info list"
  ti_mirror_snapshot :: "digest_info list"
  ti_mirror_added :: "digest_info list"
  ti_all_subtrees :: "digest_info list"
  ti_added_subtrees :: "digest_info list"
  ti_removed_subtrees :: "digest_info list"
  ti_ac_pins :: "string \<times> digest_info list"
  ti_mirror_pins :: "(string \<times> digest_info) list"
  ti_header :: header_scalars

definition bdi_with_stamp :: "hex_crate \<Rightarrow> digest_info \<Rightarrow> stamp \<Rightarrow> blob_digest_info" where
  "bdi_with_stamp hx digest stamp =
     \<lparr>bdi_digest = Some (digest_into_proto hx digest), ts_boot_epoch = boot_epoch stamp, ts_counter = counter stamp\<rparr>"

text \<open>Present blobs, evicted blobs and pinned mirror blobs of the report; the changes are taken out.\<close>

definition tick_digests ::
  "hex_crate \<Rightarrow> bool \<Rightarrow> tick_inputs \<Rightarrow> blobs_available_state \<Rightarrow>
    (blob_digest_info list \<times> blob_digest_info list \<times> proto_digest list) \<times> blobs_available_state" where
  "tick_digests hx is_first ti st =
     (case swap (ti_order ti) (tracker st) of (changes, pending) \<Rightarrow>
        let st = st\<lparr>tracker := pending\<rparr>;
            mirror_evicted = map (\<lambda>d. bdi_with_stamp hx d stamp_default) (ti_mirror_removed ti)
        in if is_first then
             ((map (\<lambda>d. bdi_with_stamp hx d stamp_default) (ti_all_digests ti), mirror_evicted,
               map (digest_into_proto hx) (ti_mirror_snapshot ti)), st)
           else
             ((map (\<lambda>(d, _, s). bdi_with_stamp hx d s) (filter (\<lambda>(_, state, _). state = Present) changes),
               map (\<lambda>(d, _, s). bdi_with_stamp hx d s) (filter (\<lambda>(_, state, _). state = Absent) changes) @ mirror_evicted,
               map (digest_into_proto hx) (ti_mirror_added ti)), st))"

definition tick_notification ::
  "hex_crate \<Rightarrow> bool \<Rightarrow> tick_inputs \<Rightarrow> blob_digest_info list \<times> blob_digest_info list \<times> proto_digest list \<Rightarrow>
    blobs_available_notification" where
  "tick_notification hx is_first ti report =
     (case report of (digest_infos, evicted_blob_infos, pinned_mirror_digests) \<Rightarrow>
        let protos = map (digest_into_proto hx);
            h = ti_header ti
        in \<lparr>n_worker_cas_endpoint = h_worker_cas_endpoint h,
            n_digests = [],
            n_is_full_snapshot = is_first,
            n_evicted_digests = List.map_filter bdi_digest evicted_blob_infos,
            n_digest_infos = digest_infos,
            n_cpu_load_pct = h_cpu_load_pct h,
            n_cached_directory_digests = (if is_first then protos (ti_all_subtrees ti) else []),
            n_added_subtree_digests = (if is_first then [] else protos (ti_added_subtrees ti)),
            n_removed_subtree_digests = (if is_first then [] else protos (ti_removed_subtrees ti)),
            n_is_full_subtree_snapshot = is_first,
            n_p_core_load_pct = h_p_core_load_pct h,
            n_e_core_load_pct = h_e_core_load_pct h,
            n_pinned_mirror_digests = pinned_mirror_digests,
            n_mirror_used_bytes = h_mirror_used_bytes h,
            n_mirror_max_bytes = h_mirror_max_bytes h,
            n_pinned_mirror_entries =
              map (\<lambda>(st, d). \<lparr>mpe_digest = Some (digest_into_proto hx d), mpe_store_id = st\<rparr>) (ti_mirror_pins ti),
            n_pinned_ac_mirror_entries =
              map (\<lambda>d. \<lparr>mpe_digest = Some (digest_into_proto hx d), mpe_store_id = fst (ti_ac_pins ti)\<rparr>) (snd (ti_ac_pins ti)),
            n_indefinite_pin_saturated = h_indefinite_pin_saturated h,
            n_swap_used_bytes = h_swap_used_bytes h,
            n_memory_pressure_level = h_memory_pressure_level h,
            n_memory_pressured = h_memory_pressured h,
            n_available_disk_bytes = h_available_disk_bytes h,
            n_disk_pressured = h_disk_pressured h,
            n_evicted_blob_infos = evicted_blob_infos,
            n_construct_latency_ms_p95 = h_construct_latency_ms_p95 h\<rparr>)"

text \<open>
  A delta always goes through the buffered path; a full snapshot is not buffered, and takes the single
  message when it is small. The pins that were advertised are remembered after a successful send.
\<close>

definition send_periodic_notification ::
  "(nat \<Rightarrow> unit result) \<Rightarrow> bool \<Rightarrow> digest_info set \<Rightarrow> blobs_available_notification \<Rightarrow> blobs_available_state \<Rightarrow>
    unit result \<times> worker_update list \<times> blobs_available_state" where
  "send_periodic_notification tx is_first current_ac_pin_set n st =
     (let memo = (\<lambda>r st. case r of Inl _ \<Rightarrow> st | Inr _ \<Rightarrow> st\<lparr>last_sent_ac_pin_set := current_ac_pin_set\<rparr>) in
      if \<not> is_first \<or> should_chunk n then
        let broadcast_id = next_broadcast_id st;
            st = st\<lparr>next_broadcast_id := broadcast_id + 1\<rparr>
        in case chunk_blobs_available n broadcast_id (worker_instance_token st) [] BLOBS_AVAILABLE_PER_CHUNK of
             Inl _ \<Rightarrow> (Inr (), [], st)
           | Inr chunks \<Rightarrow>
               if is_first then
                 (case replay_loop tx 0 chunks of (r, sent) \<Rightarrow> (r, sent, memo r (clear_resend_buffer st)))
               else (case send_delta_loop tx 0 chunks st of (r, sent, st) \<Rightarrow> (r, sent, memo r st))
      else (tx 0, (case tx 0 of Inl _ \<Rightarrow> [] | Inr _ \<Rightarrow> [BlobsAvailable n]), memo (tx 0) st))"

definition send_periodic_blobs_available ::
  "hex_crate \<Rightarrow> (nat \<Rightarrow> unit result) \<Rightarrow> bool \<Rightarrow> tick_inputs \<Rightarrow> blobs_available_state \<Rightarrow>
    unit result \<times> worker_update list \<times> blobs_available_state" where
  "send_periodic_blobs_available hx tx is_first ti st =
     (let is_first = (is_first \<or> blobs_available_force_full_snapshot st);
          st = st\<lparr>blobs_available_force_full_snapshot := False\<rparr>
      in case (if is_first then (Inr (), []) else replay_unacked_chunks tx st) of
           (Inl err, replayed) \<Rightarrow> (Inl err, replayed, st)
         | (Inr _, replayed) \<Rightarrow>
             case tick_digests hx is_first ti (snd (apply_periodic_tick_memo_resets is_first st)) of (report, st) \<Rightarrow>
             let n = tick_notification hx is_first ti report;
                 current_ac_pin_set = set (snd (ti_ac_pins ti));
                 counts = compute_ac_pin_delta_counts current_ac_pin_set (last_sent_ac_pin_set st)
             in if should_skip_blobs_available_tick is_first (length (n_digest_infos n)) (length (n_evicted_blob_infos n))
                     (length (n_added_subtree_digests n)) (length (n_removed_subtree_digests n))
                     (length (n_pinned_mirror_digests n)) (fst counts = 0 \<and> snd counts = 0)
                then (Inr (), replayed,
                      st\<lparr>blobs_available_skipped_counter := blobs_available_skipped_counter st + 1\<rparr>)
                else case send_periodic_notification (\<lambda>i. tx (length replayed + i)) is_first current_ac_pin_set n st of
                       (r, sent, st) \<Rightarrow> (r, replayed @ sent, st))"

end
