(* ===== verification/Blobs_Resend_Props.thy ===== *)
theory Blobs_Resend_Props
  imports Blobs_Resend
begin

text \<open>
  The worker and the server together: the chunked path has the effect of the single message; a chunk
  that is lost on the way is recovered by the retransmission in some cases and never in others; and a
  small snapshot leaves older deltas in the buffer, which are then applied over it.
\<close>

section \<open>The chunked path and the single message\<close>

lemma decode_legacy:
  "List.map_filter (decode_info hx) (map legacy_info ds) =
    map (\<lambda>d. (d, stamp_default)) (List.map_filter (decode_digest hx) ds)"
  by (induction ds)
    (auto simp: map_filter_simps decode_info_def legacy_info_def stamp_default_def split: option.split)

lemma map_filter_append: "List.map_filter f (xs @ ys) = List.map_filter f xs @ List.map_filter f ys"
  by (simp add: map_filter_def)

lemma decode_canonical: "decode_blobs_available hx (canonical n) = decode_blobs_available hx n"
  by (simp add: decode_blobs_available_def canonical_def map_filter_append decode_legacy map_filter_simps Let_def cong: if_cong)

lemma handle_canonical: "handle_blobs_available hx now (canonical n) s = handle_blobs_available hx now n s"
proof -
  have endpoint: "report_endpoint s' (canonical n) = report_endpoint s' n" for s' :: "'a worker_connection"
    by (simp add: report_endpoint_def canonical_def)
  have calls: "handler_calls hx p (canonical n) = handler_calls hx p n" for p
    by (simp add: handler_calls_def canonical_def Let_def cong: if_cong)
  have pins: "n_pinned_ac_mirror_entries (canonical n) = n_pinned_ac_mirror_entries n"
    by (simp add: canonical_def)
  have ack: "ack_pinned_mirror (canonical n) s' = ack_pinned_mirror n s'" for s' :: "'a worker_connection"
    by (simp add: ack_pinned_mirror_def canonical_def)
  have follow: "follow_up now (canonical n) b s' = follow_up now n b s'" for b and s' :: "'a worker_connection"
    unfolding follow_up_def ack ..
  have full: "n_is_full_snapshot (canonical n) = n_is_full_snapshot n" by (simp add: canonical_def)
  show ?thesis
    unfolding handle_blobs_available_def replace_advertised_pins_def decode_canonical endpoint calls pins ack follow full ..
qed

lemma serve_chunks_append:
  "serve_chunks hx now s (xs @ ys) =
    (let (a, h, s') = serve_chunks hx now s xs; (a', h', s'') = serve_chunks hx now s' ys
     in (a @ a', h @ h', s''))"
  by (induction xs arbitrary: s) (simp_all add: case_prod_beta Let_def)

lemma handled_replicate [simp]:
  "handled_of (replicate k (Accepted None) @ rs) = handled_of rs" by (induction k) simp_all

lemma acks_replicate [simp]:
  "acks_of (ds @ cs) (replicate (length ds) (Accepted None) @ rs) = map ack_of ds @ acks_of cs rs"
  by (induction ds) simp_all

text \<open>The effects of a connection besides its accumulator.\<close>

definition effects :: "'cb worker_connection \<Rightarrow> 'cb worker_connection" where
  "effects s = s\<lparr>conn_accumulator := accumulator_new\<rparr>"

lemma effects_locality: "conn_locality_map (effects s) = conn_locality_map s"
  by (simp add: effects_def)

lemma follow_up_accumulator:
  "follow_up now n b (s\<lparr>conn_accumulator := a\<rparr>) = (follow_up now n b s)\<lparr>conn_accumulator := a\<rparr>"
  "send_reconcile_complete full (ack_pinned_mirror n (s\<lparr>conn_accumulator := a\<rparr>)) =
    (send_reconcile_complete full (ack_pinned_mirror n s))\<lparr>conn_accumulator := a\<rparr>"
  by (simp_all add: follow_up_defs)

lemma handle_effects: "effects (handle_blobs_available hx now n s) = handle_blobs_available hx now n (effects s)"
proof -
  let ?a = "\<lambda>s :: 'a worker_connection. s\<lparr>conn_accumulator := accumulator_new\<rparr>"
  have pins: "replace_advertised_pins hx now n (?a s) = ?a (replace_advertised_pins hx now n s)"
    by (simp add: replace_advertised_pins_def report_endpoint_def split: option.split)
  have comm: "(?a s')\<lparr>conn_calls := x\<rparr> = ?a (s'\<lparr>conn_calls := x\<rparr>)"
    "(?a s')\<lparr>conn_locality_map := m\<rparr> = ?a (s'\<lparr>conn_locality_map := m\<rparr>)" for s' x m by simp_all
  show ?thesis
    unfolding effects_def handle_blobs_available_def pins Let_def
    by (cases "conn_locality_map (replace_advertised_pins hx now n s)")
      (simp_all add: report_endpoint_def comm follow_up_accumulator)
qed

lemma serve_broadcast:
  assumes "fst (merge_chunks (conn_accumulator s) cs) = replicate (length cs - 1) (Accepted None) @ [Accepted (Some n)]"
    "cs \<noteq> []"
  shows "fst (serve_chunks hx now s cs) = map ack_of cs" "fst (snd (serve_chunks hx now s cs)) = [n]"
    "effects (snd (snd (serve_chunks hx now s cs))) = effects (handle_blobs_available hx now n s)"
proof -
  have cs: "cs = butlast cs @ [last cs]" using assms(2) by simp
  let ?s = "snd (snd (serve_chunks hx now s (butlast cs)))"
  have len: "length (fst (merge_chunks a xs)) = length xs" for a xs
    by (induction xs arbitrary: a) (simp_all add: case_prod_beta)
  have split: "fst (merge_chunks (conn_accumulator s) (butlast cs)) = replicate (length cs - 1) (Accepted None)"
    "fst (merge_chunk_outcome (snd (merge_chunks (conn_accumulator s) (butlast cs))) (last cs)) = Accepted (Some n)"
  proof -
    have "fst (merge_chunks (conn_accumulator s) (butlast cs)) @
      [fst (merge_chunk_outcome (snd (merge_chunks (conn_accumulator s) (butlast cs))) (last cs))] =
      replicate (length cs - 1) (Accepted None) @ [Accepted (Some n)]"
      using assms(1) by (subst (asm) cs) (simp add: merge_chunks_append case_prod_beta)
    then show "fst (merge_chunks (conn_accumulator s) (butlast cs)) = replicate (length cs - 1) (Accepted None)"
      "fst (merge_chunk_outcome (snd (merge_chunks (conn_accumulator s) (butlast cs))) (last cs)) = Accepted (Some n)"
      by simp_all
  qed
  show "fst (serve_chunks hx now s cs) = map ack_of cs"
    unfolding serve_chunks_eq(1) assms(1) using acks_replicate [of "butlast cs" "[last cs]" "[Accepted (Some n)]"] cs
    by (metis acks_of.simps(1,3) length_butlast list.simps(8,9) map_append)
  show "fst (snd (serve_chunks hx now s cs)) = [n]" unfolding serve_chunks_eq(2) assms(1) by simp
  have none: "fst (snd (serve_chunks hx now s (butlast cs))) = []"
    unfolding serve_chunks_eq(2) split(1) using handled_replicate [of "length cs - 1" "[]"] by simp
  have s': "?s = s\<lparr>conn_accumulator := snd (merge_chunks (conn_accumulator s) (butlast cs))\<rparr>"
    by (rule serve_chunks_none_handled [OF none])
  have "snd (snd (serve_chunks hx now s cs)) = snd (snd (serve_chunk hx now ?s (last cs)))"
    by (subst cs) (simp add: serve_chunks_append case_prod_beta Let_def)
  also have "\<dots> = handle_blobs_available hx now n
    (?s\<lparr>conn_accumulator := snd (merge_chunk_outcome (conn_accumulator ?s) (last cs))\<rparr>)"
    using split(2) by (simp add: serve_chunk_eq s' case_prod_beta)
  finally show "effects (snd (snd (serve_chunks hx now s cs))) = effects (handle_blobs_available hx now n s)"
    by (simp add: s' handle_effects) (simp add: effects_def)
qed

text \<open>C6. The chunked path is equivalent to the single message: when the chunks of a notification arrive in
  order on a connection with room, each is acknowledged, and the locality map, the pins and the calls
  to the scheduler end up as if the notification had come in one message, legacy digests included.\<close>

theorem chunked_path_equals_single_message:
  assumes "chunk_blobs_available n b t st k = Inr cs" "k \<le> 8192" "t \<noteq> 0"
    and "conn_accumulator s = conn_run (accumulator_new_with_drop_counts d) evs"
    and "broadcasts (conn_accumulator s) b = None" "card (dom (broadcasts (conn_accumulator s))) < 8"
    and "total_accumulated (conn_accumulator s) + sources_size (sources_of n) \<le> 1000000"
  shows "fst (serve_chunks hx now s cs) = map ack_of cs \<and>
    effects (snd (snd (serve_chunks hx now s cs))) = effects (handle_blobs_available hx now n s)"
proof -
  have "fst (merge_chunks (conn_accumulator s) cs) =
    replicate (length cs - 1) (Accepted None) @ [Accepted (Some (canonical n))]"
    using chunked_broadcast [OF assms(1), of "arrivals evs" "conn_accumulator s"] assms(2-7) conn_run_inv [of evs d]
    by (simp add: MAX_ENTRIES_PER_CHUNK_def MAX_INFLIGHT_BROADCASTS_PER_CONN_def MAX_ACCUMULATED_ENTRIES_PER_CONN_def)
  from serve_broadcast [OF this chunker_chunks(1) [OF assms(1)]] show ?thesis
    by (simp add: handle_canonical)
qed

definition demo_connection :: "unit worker_connection" where
  "demo_connection = \<lparr>conn_cas_endpoint = ''w1'', has_worker_proxy = False, has_cas_store = True, has_dispatcher = False,
     last_backfill_epoch_secs = 0, reconcile_complete_sent = False, conn_locality_map = Some locality_new,
     conn_ac_pin_registry = None, conn_accumulator = accumulator_new, conn_calls = []\<rparr>"

definition demo_clocks :: clocks where
  "demo_clocks = \<lparr>instant = 0, unix_secs = 1700000000\<rparr>"

lemma demo_connection_accumulator: "conn_accumulator demo_connection = accumulator_new"
  by (simp add: demo_connection_def)

theorem chunked_path_equals_single_message_witness:
  "\<exists>c0 c1. chunk_blobs_available demo_notification 1 7 [] 2 = Inr [c0, c1] \<and>
    fst (serve_chunks hex_codec demo_clocks demo_connection [c0, c1]) = [ack_of c0, ack_of c1] \<and>
    effects (snd (snd (serve_chunks hex_codec demo_clocks demo_connection [c0, c1]))) =
      effects (handle_blobs_available hex_codec demo_clocks demo_notification demo_connection)"
proof -
  obtain c0 c1 where cs: "chunk_blobs_available demo_notification 1 7 [] 2 = Inr [c0, c1]" using demo_two_chunks by blast
  have "fst (serve_chunks hex_codec demo_clocks demo_connection [c0, c1]) = map ack_of [c0, c1] \<and>
    effects (snd (snd (serve_chunks hex_codec demo_clocks demo_connection [c0, c1]))) =
      effects (handle_blobs_available hex_codec demo_clocks demo_notification demo_connection)"
    using demo_accumulator(2,3) demo_size
    by (intro chunked_path_equals_single_message [OF cs, where d = drop_counts_default and evs = "[]"])
      (simp_all add: demo_connection_accumulator demo_accumulator(1))
  with cs show ?thesis by auto
qed

section \<open>The buffer\<close>

definition chunk_key :: "blobs_available_chunk \<Rightarrow> u64 \<times> u32" where
  "chunk_key c = (c_broadcast_id c, c_sequence c)"

definition buffer_of :: "blobs_available_chunk list \<Rightarrow> resend_buffer" where
  "buffer_of cs = map_of (map (\<lambda>c. (chunk_key c, c)) cs)"

lemma dom_buffer_of: "dom (buffer_of cs) = chunk_key ` set cs"
  by (simp add: buffer_of_def dom_map_of_conv_image_fst image_image)

lemma card_buffer_of: "card (dom (buffer_of cs)) \<le> length cs"
  unfolding dom_buffer_of by (rule order_trans [OF card_image_le]) (simp_all add: card_length)

lemma buffer_of_snoc:
  "chunk_key c \<notin> chunk_key ` set cs \<Longrightarrow> buffer_of (cs @ [c]) = (buffer_of cs)(chunk_key c \<mapsto> c)"
proof -
  assume "chunk_key c \<notin> chunk_key ` set cs"
  then have "dom [chunk_key c \<mapsto> c] \<inter> dom (buffer_of cs) = {}" by (simp add: dom_buffer_of)
  then have "[chunk_key c \<mapsto> c] ++ buffer_of cs = buffer_of cs ++ [chunk_key c \<mapsto> c]" by (rule map_add_comm)
  then show ?thesis by (simp add: buffer_of_def)
qed

lemma buffer_of_Cons: "buffer_of (c # cs) = (buffer_of cs)(chunk_key c \<mapsto> c)"
  by (simp add: buffer_of_def)

lemma buffer_of_ack: "(buffer_of cs)(k := None) = buffer_of (filter (\<lambda>c. chunk_key c \<noteq> k) cs)"
proof (induction cs)
  case (Cons c cs)
  then show ?case
    by (cases "chunk_key c = k") (simp_all add: buffer_of_Cons fun_upd_twist del: fun_upd_apply)
qed (simp add: buffer_of_def)

lemma unacked_buffer_of:
  assumes "sorted (map chunk_key cs)" "distinct (map chunk_key cs)"
  shows "unacked_chunks (buffer_of cs) = cs"
proof -
  have "sorted_list_of_set (dom (buffer_of cs)) = map chunk_key cs"
    using assms by (intro sorted_distinct_set_unique) (simp_all add: dom_buffer_of)
  moreover have "List.map_filter (buffer_of cs) (map chunk_key ds) = ds" if "set ds \<subseteq> set cs" for ds
    using that
  proof (induction ds)
    case (Cons d ds)
    have "buffer_of cs (chunk_key d) = Some d"
      unfolding buffer_of_def using Cons.prems assms(2) by (intro map_of_is_SomeI) (simp_all add: comp_def)
    then show ?case using Cons by (simp add: map_filter_simps)
  qed (simp add: map_filter_simps)
  ultimately show ?thesis by (simp add: unacked_chunks_def)
qed

text \<open>A worker of this process that keeps exactly these chunks.\<close>

definition keeps :: "u64 \<Rightarrow> blobs_available_state \<Rightarrow> blobs_available_chunk list \<Rightarrow> bool" where
  "keeps t w cs \<longleftrightarrow> worker_instance_token w = t \<and> blobs_available_resend w = buffer_of cs"

lemma keeps_ack:
  "keeps t w cs \<Longrightarrow> t \<noteq> 0 \<Longrightarrow> \<forall>c \<in> set ds. c_worker_instance_token c = t \<Longrightarrow>
    keeps t (fold handle_blobs_available_ack (map ack_of ds) w) (filter (\<lambda>c. chunk_key c \<notin> chunk_key ` set ds) cs)"
proof (induction ds arbitrary: w cs)
  case (Cons d ds)
  have "keeps t (handle_blobs_available_ack (ack_of d) w) (filter (\<lambda>c. chunk_key c \<noteq> chunk_key d) cs)"
    using Cons.prems
    by (simp add: keeps_def handle_blobs_available_ack_def ack_of_def resend_ack_def buffer_of_ack [symmetric])
      (simp add: chunk_key_def)
  from Cons.IH [OF this] Cons.prems show ?case by simp
qed simp

lemma send_delta_all:
  assumes "keeps t w ds" "distinct (map chunk_key (ds @ cs))" "length (ds @ cs) \<le> 256"
  shows "\<exists>w'. send_delta_loop (\<lambda>_. Inr ()) i cs w = (Inr (), map ChunkedMessage cs, w') \<and> keeps t w' (ds @ cs)"
  using assms
proof (induction cs arbitrary: w ds i)
  case (Cons c cs)
  have "\<not> 256 \<le> card (dom (buffer_of ds))" using card_buffer_of [of ds] Cons.prems(3) by simp
  moreover have "chunk_key c \<notin> chunk_key ` set ds" using Cons.prems(2) by auto
  ultimately have "keeps t (snd (buffer_delta_chunk c w)) (ds @ [c])"
    using Cons.prems(1) buffer_of_snoc [of c ds]
    by (simp add: keeps_def buffer_delta_chunk_def resend_add_def BLOBS_AVAILABLE_RESEND_MAX_CHUNKS_def chunk_key_def Let_def)
  from Cons.IH [OF this, of "Suc i"] Cons.prems show ?case by auto
qed simp

section \<open>Exchanges\<close>

text \<open>The server receives chunks and its acknowledgements reach the worker.\<close>

definition exchange ::
  "hex_crate \<Rightarrow> clocks \<Rightarrow> blobs_available_state \<Rightarrow> 'cb worker_connection \<Rightarrow> blobs_available_chunk list \<Rightarrow>
    blobs_available_notification list \<times> blobs_available_state \<times> 'cb worker_connection" where
  "exchange hx now w s cs =
     (case serve_chunks hx now s cs of (acks, handled, s') \<Rightarrow> (handled, fold handle_blobs_available_ack acks w, s'))"

definition chunks_in :: "worker_update list \<Rightarrow> blobs_available_chunk list" where
  "chunks_in us = List.map_filter (\<lambda>u. case u of ChunkedMessage c \<Rightarrow> Some c | BlobsAvailable _ \<Rightarrow> None) us"

text \<open>One retransmission without loss, and several.\<close>

definition replay_round ::
  "hex_crate \<Rightarrow> clocks \<Rightarrow> blobs_available_state \<Rightarrow> 'cb worker_connection \<Rightarrow>
    blobs_available_notification list \<times> blobs_available_state \<times> 'cb worker_connection" where
  "replay_round hx now w s = exchange hx now w s (chunks_in (snd (replay_unacked_chunks (\<lambda>_. Inr ()) w)))"

fun replay_rounds ::
  "hex_crate \<Rightarrow> clocks \<Rightarrow> nat \<Rightarrow> blobs_available_state \<Rightarrow> 'cb worker_connection \<Rightarrow>
    blobs_available_notification list \<times> blobs_available_state \<times> 'cb worker_connection" where
  "replay_rounds hx now 0 w s = ([], w, s)"
| "replay_rounds hx now (Suc k) w s =
     (case replay_round hx now w s of (handled, w1, s1) \<Rightarrow>
      case replay_rounds hx now k w1 s1 of (handled', w2, s2) \<Rightarrow> (handled @ handled', w2, s2))"

lemma chunks_in_messages [simp]: "chunks_in (map ChunkedMessage cs) = cs"
  by (induction cs) (simp_all add: chunks_in_def map_filter_simps)

lemma replay_loop_ok: "replay_loop (\<lambda>_. Inr ()) i cs = (Inr (), map ChunkedMessage cs)"
  by (induction cs arbitrary: i) simp_all

lemma replay_round_eq:
  "keeps t w cs \<Longrightarrow> sorted (map chunk_key cs) \<Longrightarrow> distinct (map chunk_key cs) \<Longrightarrow>
    replay_round hx now w s = exchange hx now w s cs"
proof -
  assume "keeps t w cs" "sorted (map chunk_key cs)" "distinct (map chunk_key cs)"
  then have "unacked_chunks (blobs_available_resend w) = cs" by (simp add: keeps_def unacked_buffer_of)
  then have "snd (replay_unacked_chunks (\<lambda>_. Inr ()) w) = map ChunkedMessage cs"
    by (simp add: replay_unacked_chunks_def replay_loop_ok)
  then show ?thesis by (simp add: replay_round_def)
qed

lemma merge_chunks_inv: "conn_inv hist a \<Longrightarrow> conn_inv (hist @ cs) (snd (merge_chunks a cs))"
proof (induction cs arbitrary: hist a)
  case (Cons c cs)
  then show ?case
    using Cons.IH [OF merge_chunk_outcome_inv [OF Cons.prems, of c]] by (simp add: case_prod_beta)
qed simp

section \<open>Parts of a broadcast\<close>

text \<open>A connection that does not know a broadcast and has room for it.\<close>

definition ready :: "u64 \<Rightarrow> nat \<Rightarrow> blobs_available_accumulator \<Rightarrow> bool" where
  "ready b e a \<longleftrightarrow> (\<exists>hist. conn_inv hist a) \<and> broadcasts a b = None \<and>
     card (dom (broadcasts a)) < MAX_INFLIGHT_BROADCASTS_PER_CONN \<and>
     total_accumulated a + e \<le> MAX_ACCUMULATED_ENTRIES_PER_CONN"

text \<open>A notification that the worker has cut into chunks.\<close>

definition cut_up :: "blobs_available_notification \<Rightarrow> u64 \<Rightarrow> u64 \<Rightarrow> blobs_available_chunk list \<Rightarrow> bool" where
  "cut_up n b t cs \<longleftrightarrow> t \<noteq> 0 \<and> chunk_blobs_available n b t [] BLOBS_AVAILABLE_PER_CHUNK = Inr cs"

lemma subseq_subset: "subseq xs ys \<Longrightarrow> set xs \<subseteq> set ys"
  by (auto simp: subseq_conv_nths dest: in_set_nthsD)

lemma subseq_map_distinct: "subseq xs ys \<Longrightarrow> distinct (map f ys) \<Longrightarrow> distinct (map f xs)"
  by (auto simp: subseq_conv_nths nths_map [symmetric] intro: distinct_nthsI)

lemma subseq_map_sorted: "subseq xs ys \<Longrightarrow> sorted (map f ys) \<Longrightarrow> sorted (map f xs)"
  by (auto simp: subseq_conv_nths nths_map [symmetric] intro: sorted_nths)

lemma payload_entries_subseq: "subseq xs ys \<Longrightarrow> payload_entries xs \<le> payload_entries ys"
  by (induction rule: list_emb.induct) auto

lemma cut_up_chunks:
  assumes "cut_up n b t cs"
  shows "cs \<noteq> []" "length cs \<le> 256" "\<forall>c \<in> set cs. of_broadcast b t [] (n_is_full_snapshot n) c"
    "distinct (map c_sequence cs)" "complete cs" "payload_entries cs = sources_size (sources_of n)"
    "\<forall>c \<in> set (butlast cs). \<not> c_is_last c" "c_is_last (last cs)"
    "\<And>i. i < length cs \<Longrightarrow> unat (c_sequence (cs ! i)) = i"
proof -
  have cs: "chunk_blobs_available n b t [] BLOBS_AVAILABLE_PER_CHUNK = Inr cs" using assms by (simp add: cut_up_def)
  have "BLOBS_AVAILABLE_PER_CHUNK \<le> MAX_ENTRIES_PER_CHUNK"
    by (simp add: BLOBS_AVAILABLE_PER_CHUNK_def MAX_ENTRIES_PER_CHUNK_def)
  then show "cs \<noteq> []" "length cs \<le> 256" "\<forall>c \<in> set cs. of_broadcast b t [] (n_is_full_snapshot n) c"
    "distinct (map c_sequence cs)" "complete cs" "payload_entries cs = sources_size (sources_of n)"
    "\<forall>c \<in> set (butlast cs). \<not> c_is_last c" "c_is_last (last cs)"
    using chunker_chunks [OF cs] chunker_complete [OF cs] by simp_all
  show "unat (c_sequence (cs ! i)) = i" if "i < length cs" for i
    using that chunker_chunks(3) [OF cs] by (metis add.left_neutral comp_apply nth_map nth_upt)
qed

lemma cut_up_keys:
  assumes "cut_up n b t cs" "subseq ds cs"
  shows "sorted (map chunk_key ds)" "distinct (map chunk_key ds)" "\<forall>c \<in> set ds. c_worker_instance_token c = t"
proof -
  note c = cut_up_chunks [OF assms(1)]
  have key: "chunk_key (cs ! i) = (b, c_sequence (cs ! i))" if "i < length cs" for i
    using that c(3) by (simp add: chunk_key_def of_broadcast_def)
  have "chunk_key (cs ! i) \<le> chunk_key (cs ! j)" if "i \<le> j" "j < length cs" for i j
    using that c(9) [of i] c(9) [of j] by (simp add: key less_eq_prod_simp word_le_nat_alt)
  then have "sorted (map chunk_key cs)" by (simp add: sorted_iff_nth_mono)
  moreover have "distinct (map chunk_key cs)"
    using c(4) by (auto simp: distinct_conv_nth key)
  ultimately show "sorted (map chunk_key ds)" "distinct (map chunk_key ds)"
    using subseq_map_sorted [OF assms(2)] subseq_map_distinct [OF assms(2)] by blast+
  show "\<forall>c \<in> set ds. c_worker_instance_token c = t"
    using c(3) subseq_subset [OF assms(2)] by (auto simp: of_broadcast_def)
qed

lemma incomplete_part:
  assumes "cut_up n b t cs" "Suc (length ds) < length cs"
  shows "\<not> complete (ds @ [last cs])"
proof
  assume "complete (ds @ [last cs])"
  moreover have "unat (c_sequence (last cs)) = length cs - 1"
    using cut_up_chunks(9) [OF assms(1), of "length cs - 1"] cut_up_chunks(1) [OF assms(1)]
    by (simp add: last_conv_nth)
  ultimately have "length cs - 1 \<in> {..<length (ds @ [last cs])}" unfolding complete_def by force
  then show False using assms(2) by simp
qed

lemma part_of:
  assumes "cut_up n b t cs" "subseq ds (butlast cs)"
  shows "subseq (ds @ [last cs]) cs"
proof -
  have "subseq (ds @ [last cs]) (butlast cs @ [last cs])" using assms(2) by simp
  then show ?thesis by (simp add: cut_up_chunks(1) [OF assms(1)])
qed

lemma exchange_incomplete:
  assumes "cut_up n b t cs" "ready b (sources_size (sources_of n)) (conn_accumulator s)" "keeps t w ks"
    "subseq ds (butlast cs)" "\<not> complete (ds @ [last cs])"
  shows "\<exists>w' s'. exchange hx now w s (ds @ [last cs]) = ([], w', s') \<and>
    keeps t w' (filter (\<lambda>c. chunk_key c \<notin> chunk_key ` set ds) ks) \<and>
    ready b (sources_size (sources_of n)) (conn_accumulator s')"
proof -
  let ?a = "conn_accumulator s" and ?p = "ds @ [last cs]"
  note c = cut_up_chunks [OF assms(1)]
  have sub: "subseq ?p cs" by (rule part_of [OF assms(1,4)])
  obtain hist where inv: "conn_inv hist ?a" using assms(2) by (auto simp: ready_def)
  have distinct: "distinct (map c_sequence ?p)" "\<forall>c' \<in> set ?p. of_broadcast b t [] (n_is_full_snapshot n) c'"
    "\<forall>c \<in> set ds. \<not> c_is_last c"
    using c(3,7) subseq_subset [OF assms(4)] subseq_subset [OF sub] subseq_map_distinct [OF sub c(4)] by blast+
  have "\<exists>r. fst (merge_chunks ?a ?p) = replicate (length ds) (Accepted None) @ [r] \<and>
    (if complete ([] @ ?p) then \<exists>n. r = Accepted (Some n) \<and> put_together ([] @ ?p) n else r = Dropped) \<and>
    core ((broadcasts ?a)(b := None)) (snd (merge_chunks ?a ?p))"
    using assms(1,2) distinct c(6,8) payload_entries_subseq [OF sub]
    by (intro receive_all [OF inv, where t = t and st = "[]" and full = "n_is_full_snapshot n"])
      (simp_all add: ready_def conn_run_has_none cut_up_def)
  then have out: "fst (merge_chunks ?a ?p) = replicate (length ds) (Accepted None) @ [Dropped]"
    and core: "core ((broadcasts ?a)(b := None)) (snd (merge_chunks ?a ?p))" using assms(5) by auto
  have "(broadcasts ?a)(b := None) = broadcasts ?a" using assms(2) by (simp add: ready_def fun_upd_idem)
  then have "ready b (sources_size (sources_of n)) (snd (merge_chunks ?a ?p))"
    using core merge_chunks_inv [OF inv, of ?p] assms(2) conn_invD(3) [OF inv] by (auto simp: ready_def core_def)
  moreover have "fst (serve_chunks hx now s ?p) = map ack_of ds"
    using acks_replicate [of ds "[last cs]" "[Dropped]"] by (simp only: serve_chunks_eq out) simp
  moreover have "fst (snd (serve_chunks hx now s ?p)) = []" by (simp add: serve_chunks_eq out)
  moreover have "keeps t (fold handle_blobs_available_ack (map ack_of ds) w) (filter (\<lambda>c. chunk_key c \<notin> chunk_key ` set ds) ks)"
    using assms(1,3) cut_up_keys(3) [OF assms(1) sub] by (intro keeps_ack) (simp_all add: cut_up_def)
  ultimately show ?thesis by (simp add: exchange_def case_prod_beta serve_chunks_eq)
qed

lemma serve_cut_up:
  assumes "cut_up n b t cs" "ready b (sources_size (sources_of n)) (conn_accumulator s)"
  shows "fst (serve_chunks hx now s cs) = map ack_of cs" "fst (snd (serve_chunks hx now s cs)) = [canonical n]"
    "effects (snd (snd (serve_chunks hx now s cs))) = effects (handle_blobs_available hx now n s)"
proof -
  let ?a = "conn_accumulator s"
  have cs: "chunk_blobs_available n b t [] BLOBS_AVAILABLE_PER_CHUNK = Inr cs" "t \<noteq> 0"
    using assms(1) by (simp_all add: cut_up_def)
  obtain hist where inv: "conn_inv hist ?a" using assms(2) by (auto simp: ready_def)
  have "fst (merge_chunks ?a cs) = replicate (length cs - 1) (Accepted None) @ [Accepted (Some (canonical n))]"
    using chunked_broadcast [OF cs(1) _ cs(2) inv] assms(2)
    by (simp add: ready_def BLOBS_AVAILABLE_PER_CHUNK_def MAX_ENTRIES_PER_CHUNK_def)
  note served = serve_broadcast [OF this cut_up_chunks(1) [OF assms(1)]]
  show "fst (serve_chunks hx now s cs) = map ack_of cs" "fst (snd (serve_chunks hx now s cs)) = [canonical n]"
    "effects (snd (snd (serve_chunks hx now s cs))) = effects (handle_blobs_available hx now n s)"
    using served [of hx now] by (simp_all add: handle_canonical)
qed

lemma exchange_whole:
  assumes "cut_up n b t cs" "ready b (sources_size (sources_of n)) (conn_accumulator s)" "keeps t w cs"
  shows "\<exists>w' s'. exchange hx now w s cs = ([canonical n], w', s') \<and> keeps t w' [] \<and>
    effects s' = effects (handle_blobs_available hx now n s)"
proof -
  have "keeps t (fold handle_blobs_available_ack (map ack_of cs) w) (filter (\<lambda>c. chunk_key c \<notin> chunk_key ` set cs) cs)"
    using assms(1,3) cut_up_keys(3) [OF assms(1), of cs] by (intro keeps_ack) (simp_all add: cut_up_def)
  moreover have "filter (\<lambda>c. chunk_key c \<notin> chunk_key ` set cs) cs = []" by (simp add: filter_empty_conv)
  ultimately show ?thesis
    using serve_cut_up [OF assms(1,2), of hx now] by (simp add: exchange_def case_prod_beta)
qed

text \<open>A connection that has gathered all but the last chunk.\<close>

definition awaits_last :: "blobs_available_notification \<Rightarrow> u64 \<Rightarrow> blobs_available_chunk list \<Rightarrow> blobs_available_accumulator \<Rightarrow> bool" where
  "awaits_last n b cs a \<longleftrightarrow> (\<exists>hist. conn_inv hist a) \<and> has_gathered a b (butlast cs) \<and>
     total_accumulated a + payload_entries [last cs] \<le> MAX_ACCUMULATED_ENTRIES_PER_CONN \<and>
     (butlast cs \<noteq> [] \<or> card (dom (broadcasts a)) < MAX_INFLIGHT_BROADCASTS_PER_CONN)"

lemma cut_up_last:
  assumes "cut_up n b t cs"
  shows "butlast cs @ [last cs] = cs" "subseq (butlast cs) cs" "subseq [last cs] cs"
    "filter (\<lambda>c. chunk_key c \<notin> chunk_key ` set (butlast cs)) cs = [last cs]"
proof -
  show split: "butlast cs @ [last cs] = cs" using cut_up_chunks(1) [OF assms] by simp
  have "subseq (butlast cs) (butlast cs @ [last cs])" "subseq ([] @ [last cs]) (butlast cs @ [last cs])"
    using list_emb_append_mono [of "(=)" "butlast cs" "butlast cs" "[]" "[last cs]"]
      list_emb_append_mono [of "(=)" "[]" "butlast cs" "[last cs]" "[last cs]"] by simp_all
  then show "subseq (butlast cs) cs" "subseq [last cs] cs" unfolding split by simp_all
  have "distinct (map chunk_key (butlast cs @ [last cs]))" using cut_up_keys(2) [OF assms, of cs] by (simp add: split)
  then have "filter (\<lambda>c. chunk_key c \<notin> chunk_key ` set (butlast cs)) (butlast cs @ [last cs]) = [last cs]"
    by (simp add: filter_empty_conv)
  then show "filter (\<lambda>c. chunk_key c \<notin> chunk_key ` set (butlast cs)) cs = [last cs]" by (simp only: split)
qed

lemma exchange_butlast:
  assumes cut: "cut_up n b t cs" and rd: "ready b (sources_size (sources_of n)) (conn_accumulator s)" and "keeps t w cs"
  shows "\<exists>w1 s1. exchange hx now w s (butlast cs) = ([], w1, s1) \<and> keeps t w1 [last cs] \<and>
    awaits_last n b cs (conn_accumulator s1)"
proof -
  let ?a = "conn_accumulator s" and ?a1 = "snd (merge_chunks (conn_accumulator s) (butlast cs))"
  note c = cut_up_chunks [OF cut] and last = cut_up_last [OF cut]
  have t: "t \<noteq> 0" using cut by (simp add: cut_up_def)
  obtain hist where inv: "conn_inv hist ?a" using rd by (auto simp: ready_def)
  have few: "payload_entries (butlast cs) + payload_entries [last cs] = sources_size (sources_of n)"
    using c(6) by (metis payload_entries_simps(3) last(1))
  have "\<forall>c' \<in> set (butlast cs). of_broadcast b t [] (n_is_full_snapshot n) c'" "distinct (map c_sequence (butlast cs))"
    using c(3) subseq_subset [OF last(2)] subseq_map_distinct [OF last(2) c(4)] by blast+
  then have "fst (merge_chunks ?a (butlast cs)) = replicate (length (butlast cs)) (Accepted None) \<and>
    conn_inv (hist @ butlast cs) ?a1 \<and> has_gathered ?a1 b ([] @ butlast cs) \<and>
    total_accumulated ?a1 = total_accumulated ?a + payload_entries (butlast cs) \<and>
    (broadcasts ?a1)(b := None) = (broadcasts ?a)(b := None) \<and>
    ([] @ butlast cs \<noteq> [] \<or> card (dom (broadcasts ?a1)) < MAX_INFLIGHT_BROADCASTS_PER_CONN)"
    using rd t c(7) few
    by (intro receive_many [where t = t and st = "[]" and full = "n_is_full_snapshot n", OF inv])
      (simp_all add: ready_def conn_run_has_none)
  then have out: "fst (merge_chunks ?a (butlast cs)) = replicate (length (butlast cs)) (Accepted None)"
    and "awaits_last n b cs ?a1" using rd few by (auto simp: awaits_last_def ready_def)
  moreover have "fst (serve_chunks hx now s (butlast cs)) = map ack_of (butlast cs)"
    using acks_replicate [of "butlast cs" "[]" "[]"] by (simp only: serve_chunks_eq out) simp
  moreover have "fst (snd (serve_chunks hx now s (butlast cs))) = []"
    using handled_replicate [of "length (butlast cs)" "[]"] by (simp only: serve_chunks_eq out) simp
  moreover have "keeps t (fold handle_blobs_available_ack (map ack_of (butlast cs)) w) [last cs]"
    using keeps_ack [OF assms(3) t, of "butlast cs"] cut_up_keys(3) [OF cut last(2)] last(4) by simp
  ultimately show ?thesis by (simp add: exchange_def case_prod_beta serve_chunks_eq)
qed

lemma exchange_last:
  assumes cut: "cut_up n b t cs" and aw: "awaits_last n b cs (conn_accumulator s)" and keep: "keeps t w [last cs]"
  shows "\<exists>w' s'. exchange hx now w s [last cs] = ([canonical n], w', s') \<and> keeps t w' []"
proof -
  let ?a = "conn_accumulator s"
  note c = cut_up_chunks [OF cut] and last = cut_up_last [OF cut]
  have t: "t \<noteq> 0" using cut by (simp add: cut_up_def)
  obtain hist where inv: "conn_inv hist ?a" using aw by (auto simp: awaits_last_def)
  have "\<exists>r. fst (merge_chunks ?a ([] @ [last cs])) = replicate (length ([] :: blobs_available_chunk list)) (Accepted None) @ [r] \<and>
    (if complete (butlast cs @ [] @ [last cs])
     then \<exists>n. r = Accepted (Some n) \<and> put_together (butlast cs @ [] @ [last cs]) n else r = Dropped) \<and>
    core ((broadcasts ?a)(b := None)) (snd (merge_chunks ?a ([] @ [last cs])))"
    using aw t c(3,4,8)
    by (intro receive_all [OF inv, where t = t and st = "[]" and full = "n_is_full_snapshot n"])
      (simp_all add: awaits_last_def last(1))
  then obtain n' where out: "fst (merge_chunks ?a [last cs]) = [Accepted (Some n')]" and "put_together cs n'"
    using c(5) last(1) by auto
  then have "n' = canonical n" using put_together_canonical cut unfolding cut_up_def by blast
  with out have "fst (merge_chunks ?a [last cs]) = replicate (length [last cs] - 1) (Accepted None) @ [Accepted (Some (canonical n))]"
    by simp
  from serve_broadcast [OF this] have "fst (serve_chunks hx now s [last cs]) = map ack_of [last cs]"
    "fst (snd (serve_chunks hx now s [last cs])) = [canonical n]" by simp_all
  moreover have "keeps t (fold handle_blobs_available_ack (map ack_of [last cs]) w) []"
    using keeps_ack [OF keep t, of "[last cs]"] cut_up_keys(3) [OF cut last(3)] by simp
  ultimately show ?thesis by (simp add: exchange_def case_prod_beta del: serve_chunks.simps)
qed

section \<open>A chunk is lost\<close>

lemma exchange_gap:
  assumes cut: "cut_up n b t cs" and "ready b (sources_size (sources_of n)) (conn_accumulator s)" "keeps t w (ds @ [last cs])"
    and sub: "subseq ds (butlast cs)" and gap: "Suc (length ds) < length cs"
  shows "\<exists>w' s'. replay_round hx now w s = ([], w', s') \<and> keeps t w' [last cs] \<and>
    ready b (sources_size (sources_of n)) (conn_accumulator s')"
proof -
  note keys = cut_up_keys [OF cut part_of [OF cut sub]]
  have "replay_round hx now w s = exchange hx now w s (ds @ [last cs])" by (rule replay_round_eq [OF assms(3) keys(1,2)])
  moreover have "filter (\<lambda>c. chunk_key c \<notin> chunk_key ` set ds) (ds @ [last cs]) = [last cs]"
    using keys(2) by (simp add: filter_empty_conv)
  ultimately show ?thesis
    using exchange_incomplete [OF assms(1-4) incomplete_part [OF cut gap], of hx now] by simp
qed

lemma replay_rounds_gap:
  assumes "cut_up n b t cs" "ready b (sources_size (sources_of n)) (conn_accumulator s)" "keeps t w (ds @ [last cs])"
    "subseq ds (butlast cs)" "Suc (length ds) < length cs"
  shows "fst (replay_rounds hx now k w s) = [] \<and> keeps t (fst (snd (replay_rounds hx now (Suc k) w s))) [last cs]"
  using assms(2-)
proof (induction k arbitrary: w s ds)
  case 0
  from exchange_gap [OF assms(1) 0, of hx now] show ?case by (auto simp: case_prod_beta)
next
  case (Suc k)
  from exchange_gap [OF assms(1) Suc.prems, of hx now] obtain w' s' where
    "replay_round hx now w s = ([], w', s')" "keeps t w' ([] @ [last cs])"
    "ready b (sources_size (sources_of n)) (conn_accumulator s')" by auto
  with Suc.IH [of s' w' "[]"] Suc.prems(4) show ?case by (simp add: case_prod_beta)
qed

lemma lost_inner_chunk:
  assumes cut: "cut_up n b t cs" and "ready b (sources_size (sources_of n)) (conn_accumulator s)" "keeps t w cs"
    and j: "Suc j < length cs"
  shows "\<exists>w' s'. exchange hx now w s (take j cs @ drop (Suc j) cs) = ([], w', s') \<and> keeps t w' [cs ! j, last cs] \<and>
    ready b (sources_size (sources_of n)) (conn_accumulator s')"
proof -
  let ?ds = "take j (butlast cs) @ drop (Suc j) (butlast cs)"
  note last = cut_up_last [OF cut]
  have but: "butlast cs = take j (butlast cs) @ [cs ! j] @ drop (Suc j) (butlast cs)"
    using j id_take_nth_drop [of j "butlast cs"] by (simp add: nth_butlast)
  have sub: "subseq ?ds (butlast cs)"
    using subseq_drop_many [OF subseq_order.refl, of "drop (Suc j) (butlast cs)" "[cs ! j]"]
    by (subst (3) but) (simp only: subseq_append' append_assoc)
  have "take j cs @ drop (Suc j) cs = ?ds @ [last cs]"
    using j by (subst (1 2) last(1) [symmetric]) (simp del: append_butlast_last_id)
  moreover have "filter (\<lambda>c. chunk_key c \<notin> chunk_key ` set ?ds) cs = [cs ! j, last cs]"
  proof -
    have all: "(take j (butlast cs) @ [cs ! j] @ drop (Suc j) (butlast cs)) @ [last cs] = cs"
      unfolding but [symmetric] by (rule last(1))
    have "distinct (map chunk_key ((take j (butlast cs) @ [cs ! j] @ drop (Suc j) (butlast cs)) @ [last cs]))"
      unfolding all using cut_up_keys(2) [OF cut, of cs] by simp
    then have "filter (\<lambda>c. chunk_key c \<notin> chunk_key ` set ?ds)
      ((take j (butlast cs) @ [cs ! j] @ drop (Suc j) (butlast cs)) @ [last cs]) = [cs ! j, last cs]"
      by (auto simp: filter_empty_conv)
    then show ?thesis unfolding all .
  qed
  moreover have "Suc (length ?ds) < length cs" using j by simp
  ultimately show ?thesis
    using exchange_incomplete [OF assms(1-3) sub incomplete_part [OF cut], of hx now] by simp
qed

lemma lost_chunk:
  assumes cut: "cut_up n b t cs" and rd: "ready b (sources_size (sources_of n)) (conn_accumulator s)" and keep: "keeps t w cs"
    and j: "j < length cs" and ex: "exchange hx now w s (take j cs @ drop (Suc j) cs) = (handled, w1, s1)"
  shows "handled = [] \<and>
    (if length cs \<le> 2 \<or> Suc j = length cs
     then fst (replay_round hx now w1 s1) = [canonical n] \<and> keeps t (fst (snd (replay_round hx now w1 s1))) []
     else \<forall>k. fst (replay_rounds hx now k w1 s1) = [] \<and> keeps t (fst (snd (replay_rounds hx now (Suc k) w1 s1))) [last cs])"
proof (cases "Suc j = length cs")
  case True
  then have "take j cs @ drop (Suc j) cs = butlast cs" by (simp add: butlast_conv_take flip: True)
  with exchange_butlast [OF cut rd keep, of hx now] ex have st: "handled = []" "keeps t w1 [last cs]"
    "awaits_last n b cs (conn_accumulator s1)" by auto
  have "replay_round hx now w1 s1 = exchange hx now w1 s1 [last cs]" by (rule replay_round_eq [OF st(2)]) simp_all
  with exchange_last [OF cut st(3,2), of hx now] st(1) True show ?thesis by auto
next
  case False
  with j have j': "Suc j < length cs" by simp
  from lost_inner_chunk [OF cut rd keep j', of hx now] ex have st: "handled = []" "keeps t w1 [cs ! j, last cs]"
    "ready b (sources_size (sources_of n)) (conn_accumulator s1)" by auto
  show ?thesis
  proof (cases "length cs \<le> 2")
    case True
    with j' have "length cs = 2" "j = 0" by simp_all
    then have "[cs ! j, last cs] = cs" by (cases cs; cases "tl cs") auto
    with st(2) have kept: "keeps t w1 cs" by simp
    have "replay_round hx now w1 s1 = exchange hx now w1 s1 cs"
      using cut_up_keys [OF cut, of cs] by (intro replay_round_eq [OF kept]) simp_all
    with exchange_whole [OF cut st(3) kept, of hx now] st(1) True show ?thesis by auto
  next
    case long: False
    have "subseq [cs ! j] (butlast cs)"
      using j' nth_mem [of j "butlast cs"] by (simp add: nth_butlast subseq_singleton_left)
    from replay_rounds_gap [OF cut st(3) _ this, of w1 hx now] st(1,2) long False show ?thesis by simp
  qed
qed

text \<open>C7. What a retransmission repairs: a delta is sent in chunks on a connection with room and one of them
  is lost. Nothing is handled at first. If it was the last chunk, or there are at most two chunks, the next
  retransmission delivers the whole delta and empties the buffer. Otherwise no number of
  retransmissions delivers it: the chunks that arrived were acknowledged and dropped with the
  incomplete broadcast, the worker only keeps the last chunk and sends it for ever.\<close>

theorem lost_chunk_recovery:
  assumes "blobs_available_resend w = Map.empty" "worker_instance_token w \<noteq> 0"
    and "chunk_blobs_available n (next_broadcast_id w) (worker_instance_token w) [] BLOBS_AVAILABLE_PER_CHUNK = Inr cs"
    and "send_post_action_blobs_available_delta (\<lambda>_. Inr ()) n (Some w) = (r, sent, Some w0)"
    and "conn_accumulator s = conn_run (accumulator_new_with_drop_counts d) evs"
    and "broadcasts (conn_accumulator s) (next_broadcast_id w) = None" "card (dom (broadcasts (conn_accumulator s))) < 8"
    and "total_accumulated (conn_accumulator s) + sources_size (sources_of n) \<le> 1000000"
    and "j < length cs" "exchange hx now w0 s (take j cs @ drop (Suc j) cs) = (handled, w1, s1)"
  shows "sent = map ChunkedMessage cs \<and> handled = [] \<and>
    (if length cs \<le> 2 \<or> Suc j = length cs
     then fst (replay_round hx now w1 s1) = [canonical n] \<and>
       blobs_available_resend (fst (snd (replay_round hx now w1 s1))) = Map.empty
     else \<forall>k. fst (replay_rounds hx now k w1 s1) = [] \<and>
       blobs_available_resend (fst (snd (replay_rounds hx now (Suc k) w1 s1))) = [chunk_key (last cs) \<mapsto> last cs])"
proof -
  let ?t = "worker_instance_token w"
  have cut: "cut_up n (next_broadcast_id w) ?t cs" using assms(2,3) by (simp add: cut_up_def)
  have rd: "ready (next_broadcast_id w) (sources_size (sources_of n)) (conn_accumulator s)"
    using assms(5-8) conn_run_inv [of evs d]
    by (auto simp: ready_def MAX_INFLIGHT_BROADCASTS_PER_CONN_def MAX_ACCUMULATED_ENTRIES_PER_CONN_def)
  have "keeps ?t (w\<lparr>next_broadcast_id := next_broadcast_id w + 1\<rparr>) []"
    using assms(1) by (simp add: keeps_def buffer_of_def)
  from send_delta_all [OF this, of cs 0] cut_up_keys(2) [OF cut, of cs] cut_up_chunks(2) [OF cut]
  have "sent = map ChunkedMessage cs" "keeps ?t w0 cs"
    using assms(3,4) by (auto simp: send_post_action_blobs_available_delta_def Let_def)
  moreover have "blobs_available_resend w' = Map.empty" if "keeps ?t w' []" for w'
    using that by (simp add: keeps_def buffer_of_def)
  moreover have "blobs_available_resend w' = [chunk_key (last cs) \<mapsto> last cs]" if "keeps ?t w' [last cs]" for w'
    using that by (simp add: keeps_def buffer_of_def)
  ultimately show ?thesis
    using lost_chunk [OF cut rd _ assms(9,10)] by (simp del: replay_rounds.simps split: if_split_asm)
qed

text \<open>A delta of three chunks.\<close>

definition demo_delta :: blobs_available_notification where
  "demo_delta = notification_default\<lparr>n_digests := replicate 8193 demo_proto\<rparr>"

definition demo_worker :: blobs_available_state where
  "demo_worker = \<lparr>worker_instance_token = 7, next_broadcast_id = 1, tracker = Map.empty, last_sent_ac_pin_set = {},
     blobs_available_skipped_counter = 0, blobs_available_resend = Map.empty, blobs_available_force_full_snapshot = False\<rparr>"

lemma demo_delta_size: "sources_size (sources_of demo_delta) = 8193"
  unfolding demo_delta_def sources_of_def sources_size_def notification_default_def
  by (simp only: blobs_available_notification.simps chunk_sources.select_convs append_Nil length_map length_replicate list.size add_0_right)

lemma demo_three_chunks: "\<exists>cs. chunk_blobs_available demo_delta 1 7 [] BLOBS_AVAILABLE_PER_CHUNK = Inr cs \<and> length cs = 3"
proof -
  obtain cs where cs: "chunk_blobs_available demo_delta 1 7 [] BLOBS_AVAILABLE_PER_CHUNK = Inr cs"
    using chunker_total [of demo_delta BLOBS_AVAILABLE_PER_CHUNK 1 7 "[]"] by (auto simp: demo_delta_size BLOBS_AVAILABLE_PER_CHUNK_def)
  then have "length cs = 3"
    by (auto simp: chunk_blobs_available_eq Let_def length_cut_sources demo_delta_size BLOBS_AVAILABLE_PER_CHUNK_def
        split: if_splits)
  with cs show ?thesis by blast
qed

theorem lost_chunk_recovery_witness:
  "\<exists>cs w0 w1 s1. length cs = 3 \<and> chunk_blobs_available demo_delta 1 7 [] BLOBS_AVAILABLE_PER_CHUNK = Inr cs \<and>
    exchange hex_codec demo_clocks w0 demo_connection (take 1 cs @ drop 2 cs) = ([], w1, s1) \<and>
    fst (replay_rounds hex_codec demo_clocks 9 w1 s1) = []"
proof -
  obtain cs where cs: "chunk_blobs_available demo_delta 1 7 [] BLOBS_AVAILABLE_PER_CHUNK = Inr cs" "length cs = 3"
    using demo_three_chunks by blast
  obtain r sent w0 where send: "send_post_action_blobs_available_delta (\<lambda>_. Inr ()) demo_delta (Some demo_worker) = (r, sent, Some w0)"
    using cs(1) by (auto simp: send_post_action_blobs_available_delta_def demo_worker_def case_prod_beta Let_def)
  obtain handled w1 s1 where ex: "exchange hex_codec demo_clocks w0 demo_connection (take 1 cs @ drop (Suc 1) cs) = (handled, w1, s1)"
    using prod_cases3 by blast
  have "handled = [] \<and> fst (replay_rounds hex_codec demo_clocks 9 w1 s1) = []"
    using lost_chunk_recovery [OF _ _ _ send, of cs demo_connection drop_counts_default "[]" 1 hex_codec demo_clocks handled w1 s1]
      cs demo_accumulator ex
    by (simp add: demo_worker_def demo_connection_accumulator demo_delta_size del: replay_rounds.simps)
  with cs ex show ?thesis by (auto simp: numeral_2_eq_2)
qed

end
