(* ===== verification/Snapshot_Replay.thy ===== *)
theory Snapshot_Replay
  imports Blobs_Resend_Props
begin

text \<open>
  A full snapshot of \<^verbatim>\<open>nativelink-worker/src/local_worker.rs\<close> and the deltas that are still unacknowledged
  when it is sent. A snapshot that goes out in chunks empties the resend buffer; one that is small
  enough for a single message does not, and the next tick sends the older deltas again, over it.
\<close>

section \<open>Evictions over a snapshot\<close>

lemma evicts_default: "evicts s (Some stamp_default)"
proof -
  have "\<not> stamp_gt stamp_default s" by (simp add: stamp_gt_def stamp_default_def)
  then show ?thesis using stamp_gt_total [of s stamp_default] by (auto simp: evicts_def)
qed

lemma evict_gated_fold_default:
  assumes "r d ep = None \<or> r d ep = Some stamp_default"
  shows "fold (\<lambda>(d, s) r. if evicts s (r d ep) then r(d := (r d)(ep := None)) else r) xs r d ep =
    (if d \<in> fst ` set xs then None else r d ep)"
  using assms
proof (induction xs arbitrary: r)
  case (Cons x xs)
  let ?r = "if evicts (snd x) (r (fst x) ep) then r(fst x := (r (fst x))(ep := None)) else r"
  have "?r d ep = (if fst x = d then None else r d ep)"
    using Cons.prems evicts_default by (auto simp: evicts_def)
  with Cons.IH [of ?r] Cons.prems show ?case by (auto simp: case_prod_beta simp del: fun_upd_apply)
qed simp

lemma register_gated_fold_other:
  "d \<notin> fst ` set xs \<Longrightarrow> fold (\<lambda>(d, s) r. r(d := (r d)(ep \<mapsto> latest s (r d ep)))) xs r d ep = r d ep"
  by (induction xs arbitrary: r) auto

lemma register_fold_default:
  "d \<in> set ds \<Longrightarrow> fold (\<lambda>d r. r(d := (r d)(ep \<mapsto> stamp_default))) ds r d ep = Some stamp_default"
proof (induction ds arbitrary: r)
  case (Cons x ds)
  show ?case
  proof (cases "d \<in> set ds")
    case False
    then have "fold (\<lambda>d r. r(d := (r d)(ep \<mapsto> stamp_default))) ds r' d = r' d" for r' by (induction ds arbitrary: r') auto
    from this [of "r(x := (r x)(ep \<mapsto> stamp_default))"] Cons.prems False show ?thesis by (simp del: fun_upd_apply) simp
  qed (simp add: Cons.IH del: fun_upd_apply)
qed simp

text \<open>What a snapshot lists is held without a stamp.\<close>

lemma snapshot_residency:
  assumes "locality_inv m" "ba_full_snapshot b" "d \<in> fst ` set (ba_digests_stamped b)"
  shows "locality_inv (apply_blobs_available ep b m)" "residency (apply_blobs_available ep b m) d ep = Some stamp_default"
proof -
  let ?m = "remove_endpoint ep m" and ?ds = "map fst (ba_digests_stamped b) @ ba_pinned_mirror b @ ba_pinned_mirror_entries b"
  have "endpoint_blobs ?m ep = None" by (simp add: remove_endpoint_def split: option.split)
  then have "evict_blobs_gated ep xs ?m = ?m" "evict_blobs ep ys ?m = ?m" for xs ys
    by (simp_all add: evict_blobs_gated_def evict_blobs_def)
  then have eq: "apply_blobs_available ep b m = locality_step (RegisterBlobs ep ?ds) ?m"
    using assms(2,3) by (auto simp: apply_blobs_available_def Let_def)
  have "d \<in> set ?ds" using assms(3) by auto
  with locality_step_refines [OF lm.inv_leave [OF assms(1), of ep], of "RegisterBlobs ep ?ds"]
  show "locality_inv (apply_blobs_available ep b m)" "residency (apply_blobs_available ep b m) d ep = Some stamp_default"
    unfolding eq by (simp_all add: register_fold_default del: fold_append fold.simps)
qed

text \<open>A delta evicts a digest that is held without a stamp, whatever the age of the delta.\<close>

lemma delta_evicts_unstamped:
  assumes inv: "locality_inv m" and "\<not> ba_full_snapshot b" and held: "residency m d ep = Some stamp_default"
    and "d \<in> fst ` set (ba_evicted_stamped b)"
    and other: "d \<notin> fst ` set (ba_digests_stamped b)" "d \<notin> set (ba_pinned_mirror b @ ba_pinned_mirror_entries b)"
  shows "\<not> resident (apply_blobs_available ep b m) ep d"
proof -
  let ?mirror = "map (\<lambda>d. (d, stamp_default)) (ba_pinned_mirror b @ ba_pinned_mirror_entries b)"
  let ?m1 = "locality_step (EvictGated ep (ba_evicted_stamped b)) m"
  let ?m2 = "locality_step (RegisterGated ep (ba_digests_stamped b)) ?m1"
  let ?m3 = "locality_step (RegisterGated ep ?mirror) ?m2"
  note evict = locality_step_refines [OF inv, of "EvictGated ep (ba_evicted_stamped b)"]
  note reg = locality_step_refines [OF evict(1), of "RegisterGated ep (ba_digests_stamped b)"]
  note mirror = locality_step_refines [OF reg(1), of "RegisterGated ep ?mirror"]
  have r1: "residency ?m1 d ep = None"
    unfolding evict(2) using held assms(4) by (simp add: evict_gated_fold_default)
  then have r2: "residency ?m2 d ep = None"
    unfolding reg(2) using other(1) by (simp add: register_gated_fold_other)
  moreover have "d \<notin> fst ` set ?mirror" using other(2) by auto
  ultimately have r3: "residency ?m3 d ep = None"
    unfolding mirror(2) by (simp add: register_gated_fold_other del: map_append fold_append)
  have "apply_blobs_available ep b m \<in> {?m1, ?m2, ?m3}"
    using assms(2,4) by (auto simp: apply_blobs_available_def Let_def)
  with r1 r2 r3 evict(1) reg(1) mirror(1) show ?thesis
    by (metis empty_iff insert_iff resident_iff)
qed

section \<open>A snapshot in one message\<close>

lemma snapshot_in_one_message:
  "\<not> should_chunk n \<Longrightarrow> send_periodic_notification (\<lambda>_. Inr ()) True pins n st =
    (Inr (), [BlobsAvailable n], st\<lparr>last_sent_ac_pin_set := pins\<rparr>)"
  by (simp add: send_periodic_notification_def)

lemma snapshot_tick:
  assumes "n = tick_notification hx True ti (fst (tick_digests hx True ti w))" "\<not> should_chunk n"
    "send_periodic_blobs_available hx (\<lambda>_. Inr ()) True ti w = (r, sent, w')"
  shows "sent = [BlobsAvailable n]" "blobs_available_resend w' = blobs_available_resend w"
    "worker_instance_token w' = worker_instance_token w"
proof -
  let ?w = "w\<lparr>blobs_available_force_full_snapshot := False, last_sent_ac_pin_set := {}\<rparr>"
  have report: "fst (tick_digests hx True ti ?w) = fst (tick_digests hx True ti w)"
    by (simp add: tick_digests_def case_prod_beta Let_def)
  have kept: "blobs_available_resend (snd (tick_digests hx True ti ?w)) = blobs_available_resend w"
    "worker_instance_token (snd (tick_digests hx True ti ?w)) = worker_instance_token w"
    by (simp_all add: tick_digests_def case_prod_beta Let_def)
  have "send_periodic_blobs_available hx (\<lambda>_. Inr ()) True ti w =
    (Inr (), [BlobsAvailable n], (snd (tick_digests hx True ti ?w))\<lparr>last_sent_ac_pin_set := set (snd (ti_ac_pins ti))\<rparr>)"
    by (simp add: send_periodic_blobs_available_def should_skip_blobs_available_tick_def
        apply_periodic_tick_memo_resets_def case_prod_beta Let_def report assms(1) [symmetric]
        snapshot_in_one_message [OF assms(2)])
  with assms(3) kept show "sent = [BlobsAvailable n]" "blobs_available_resend w' = blobs_available_resend w"
    "worker_instance_token w' = worker_instance_token w" by auto
qed

lemma snapshot_lists_store:
  assumes "hex_ok hx" "digest_wf d" "unat (size_bytes d) < 2 ^ 63" "d \<in> set (ti_all_digests ti)"
    "n = tick_notification hx True ti (fst (tick_digests hx True ti w))"
  shows "d \<in> fst ` set (ba_digests_stamped (decode_blobs_available hx n))" "ba_full_snapshot (decode_blobs_available hx n)"
    "n_worker_cas_endpoint n = h_worker_cas_endpoint (ti_header ti)"
proof -
  have "decode_info hx (bdi_with_stamp hx d stamp_default) = Some (d, stamp_default)"
    using digest_proto_eq [OF assms(1,2)] assms(3)
    by (simp add: decode_info_def bdi_with_stamp_def decode_digest_def stamp_default_def)
  then have "(d, stamp_default) \<in> set (List.map_filter (decode_info hx) (n_digest_infos n))"
    using assms(4) unfolding assms(5)
    by (force simp: tick_notification_def tick_digests_def case_prod_beta Let_def map_filter_def)
  then show "d \<in> fst ` set (ba_digests_stamped (decode_blobs_available hx n))"
    by (force simp: decode_blobs_available_def Let_def)
  show "ba_full_snapshot (decode_blobs_available hx n)" "n_worker_cas_endpoint n = h_worker_cas_endpoint (ti_header ti)"
    by (simp_all add: assms(5) decode_blobs_available_def tick_notification_def case_prod_beta Let_def)
qed

lemma handle_locality:
  assumes "conn_locality_map s = Some m" "n_worker_cas_endpoint n = ep" "ep \<noteq> []"
  shows "conn_locality_map (handle_blobs_available hx now n s) = Some (apply_blobs_available ep (decode_blobs_available hx n) m)"
  using assms
  by (simp add: handle_blobs_available_def replace_advertised_pins_def report_endpoint_def Let_def split: option.split)

text \<open>C8. A snapshot does not always supersede the deltas before it. A delta of one chunk that evicts a blob is
  still unacknowledged when the worker reconnects and sends a snapshot that lists the blob, small enough
  for one message. The buffer is not emptied: after the snapshot the server finds the worker for the
  blob, and after the next retransmission it does not, although nothing happened to the blob.\<close>

theorem stale_delta_over_snapshot:
  assumes "blobs_available_resend w = [chunk_key c \<mapsto> c]" "worker_instance_token w \<noteq> 0"
    and "chunk_blobs_available old b (worker_instance_token w) [] BLOBS_AVAILABLE_PER_CHUNK = Inr [c]"
    and "\<not> n_is_full_snapshot old" "n_worker_cas_endpoint old = ep" "ep \<noteq> []"
    and "d \<in> fst ` set (ba_evicted_stamped (decode_blobs_available hx old))"
    and "d \<notin> fst ` set (ba_digests_stamped (decode_blobs_available hx old))"
    and "d \<notin> set (ba_pinned_mirror (decode_blobs_available hx old) @ ba_pinned_mirror_entries (decode_blobs_available hx old))"
    and "hex_ok hx" "digest_wf d" "unat (size_bytes d) < 2 ^ 63"
    and "d \<in> set (ti_all_digests ti)" "h_worker_cas_endpoint (ti_header ti) = ep"
    and "n = tick_notification hx True ti (fst (tick_digests hx True ti w))" "\<not> should_chunk n"
    and "send_periodic_blobs_available hx (\<lambda>_. Inr ()) True ti w = (r, sent, w1)"
    and "conn_accumulator s = accumulator_new" "conn_locality_map s = Some m" "locality_inv m"
    and "replay_round hx now w1 (handle_blobs_available hx now n s) = (handled, w2, s2)"
  shows "sent = [BlobsAvailable n] \<and> handled = [canonical old] \<and>
    (\<exists>m1 m2. conn_locality_map (handle_blobs_available hx now n s) = Some m1 \<and> resident m1 ep d \<and>
       conn_locality_map s2 = Some m2 \<and> \<not> resident m2 ep d)"
proof -
  let ?t = "worker_instance_token w" and ?s1 = "handle_blobs_available hx now n s"
  let ?m1 = "apply_blobs_available ep (decode_blobs_available hx n) m"
  note tick = snapshot_tick [OF assms(15-17)] and listed = snapshot_lists_store [OF assms(10-13,15)]
  have m1: "conn_locality_map ?s1 = Some ?m1" using handle_locality [OF assms(19) _ assms(6)] listed(3) assms(14) by simp
  note held = snapshot_residency [OF assms(20) listed(2,1), of ep]
  have cut: "cut_up old b ?t [c]" using assms(2,3) by (simp add: cut_up_def)
  have keep: "keeps ?t w1 [c]" using tick(2,3) assms(1) by (simp add: keeps_def buffer_of_def)
  have "sources_size (sources_of old) = payload_entries [c]" using cut_up_chunks(6) [OF cut] by simp
  also have "\<dots> \<le> MAX_ENTRIES_PER_CHUNK"
    using cut_up_chunks(3) [OF cut] by (simp add: of_broadcast_def)
  finally have "ready b (sources_size (sources_of old)) (conn_accumulator ?s1)"
    using assms(18) demo_accumulator conn_inv_new [of drop_counts_default, folded accumulator_new_def]
    by (auto simp: ready_def MAX_ENTRIES_PER_CHUNK_def MAX_ACCUMULATED_ENTRIES_PER_CONN_def MAX_INFLIGHT_BROADCASTS_PER_CONN_def)
  from exchange_whole [OF cut this keep, of hx now] replay_round_eq [OF keep, of hx now ?s1] assms(21)
  have handled: "handled = [canonical old]" "effects s2 = effects (handle_blobs_available hx now old ?s1)" by auto
  have "conn_locality_map s2 = Some (apply_blobs_available ep (decode_blobs_available hx old) ?m1)"
    using handle_locality [OF m1 assms(5,6), of hx now] arg_cong [OF handled(2), of conn_locality_map]
    by (simp add: effects_locality)
  moreover have "\<not> resident (apply_blobs_available ep (decode_blobs_available hx old) ?m1) ep d"
    using assms(4) by (intro delta_evicts_unstamped [OF held(1) _ held(2) assms(7-9)])
      (simp add: decode_blobs_available_def Let_def)
  moreover have "resident ?m1 ep d" using held by (simp add: resident_iff)
  ultimately show ?thesis using m1 tick(1) handled(1) by blast
qed

definition demo_eviction :: blobs_available_notification where
  "demo_eviction = notification_default\<lparr>n_worker_cas_endpoint := ''w1'',
     n_evicted_blob_infos := [bdi_with_stamp hex_codec demo_digest (demo_stamp 3)]\<rparr>"

definition demo_tick :: tick_inputs where
  "demo_tick = \<lparr>ti_all_digests = [demo_digest], ti_order = [], ti_mirror_removed = [], ti_mirror_snapshot = [],
     ti_mirror_added = [], ti_all_subtrees = [], ti_added_subtrees = [], ti_removed_subtrees = [],
     ti_ac_pins = ([], []), ti_mirror_pins = [],
     ti_header = \<lparr>h_worker_cas_endpoint = ''w1'', h_is_full_subtree_snapshot = True, h_cpu_load_pct = 1,
       h_p_core_load_pct = 1, h_e_core_load_pct = 1, h_mirror_used_bytes = 0, h_mirror_max_bytes = 0,
       h_indefinite_pin_saturated = False, h_swap_used_bytes = 0, h_memory_pressure_level = 0,
       h_memory_pressured = False, h_available_disk_bytes = 9, h_disk_pressured = False, h_construct_latency_ms_p95 = 0\<rparr>\<rparr>"

lemma demo_one_chunk: "\<exists>c. chunk_blobs_available demo_eviction 1 7 [] BLOBS_AVAILABLE_PER_CHUNK = Inr [c]"
proof -
  have size: "sources_size (sources_of demo_eviction) = 1"
    by (simp add: demo_eviction_def sources_of_def sources_size_def notification_default_def)
  obtain cs where cs: "chunk_blobs_available demo_eviction 1 7 [] BLOBS_AVAILABLE_PER_CHUNK = Inr cs"
    using chunker_total [of demo_eviction BLOBS_AVAILABLE_PER_CHUNK 1 7 "[]"] by (auto simp: size)
  then have "length cs = 1"
    by (auto simp: chunk_blobs_available_eq Let_def length_cut_sources size BLOBS_AVAILABLE_PER_CHUNK_def split: if_splits)
  with cs show ?thesis by (auto simp: length_Suc_conv)
qed

lemma demo_eviction_decodes:
  "ba_evicted_stamped (decode_blobs_available hex_codec demo_eviction) = [(demo_digest, demo_stamp 3)]"
  "ba_digests_stamped (decode_blobs_available hex_codec demo_eviction) = []"
  "ba_pinned_mirror (decode_blobs_available hex_codec demo_eviction) = []"
  "ba_pinned_mirror_entries (decode_blobs_available hex_codec demo_eviction) = []"
proof -
  have "unat (size_bytes demo_digest) < 2 ^ 63" by (simp add: demo_digest_def)
  then have "decode_info hex_codec (bdi_with_stamp hex_codec demo_digest (demo_stamp 3)) = Some (demo_digest, demo_stamp 3)"
    using digest_proto_eq [OF hex_codec_ok demo_digest_wf]
    by (simp add: decode_info_def bdi_with_stamp_def decode_digest_def demo_stamp_def)
  then show "ba_evicted_stamped (decode_blobs_available hex_codec demo_eviction) = [(demo_digest, demo_stamp 3)]"
    "ba_digests_stamped (decode_blobs_available hex_codec demo_eviction) = []"
    "ba_pinned_mirror (decode_blobs_available hex_codec demo_eviction) = []"
    "ba_pinned_mirror_entries (decode_blobs_available hex_codec demo_eviction) = []"
    by (simp_all add: decode_blobs_available_def demo_eviction_def notification_default_def map_filter_simps Let_def)
qed

theorem stale_delta_over_snapshot_witness:
  "\<exists>c r n w1 m1 s2 m2. chunk_blobs_available demo_eviction 1 7 [] BLOBS_AVAILABLE_PER_CHUNK = Inr [c] \<and>
    send_periodic_blobs_available hex_codec (\<lambda>_. Inr ()) True demo_tick
      (demo_worker\<lparr>blobs_available_resend := [chunk_key c \<mapsto> c]\<rparr>) = (r, [BlobsAvailable n], w1) \<and>
    conn_locality_map (handle_blobs_available hex_codec demo_clocks n demo_connection) = Some m1 \<and> resident m1 ''w1'' demo_digest \<and>
    s2 = snd (snd (replay_round hex_codec demo_clocks w1 (handle_blobs_available hex_codec demo_clocks n demo_connection))) \<and>
    conn_locality_map s2 = Some m2 \<and> \<not> resident m2 ''w1'' demo_digest"
proof -
  obtain c where c: "chunk_blobs_available demo_eviction 1 7 [] BLOBS_AVAILABLE_PER_CHUNK = Inr [c]"
    using demo_one_chunk by blast
  let ?w = "demo_worker\<lparr>blobs_available_resend := [chunk_key c \<mapsto> c]\<rparr>"
  let ?n = "tick_notification hex_codec True demo_tick (fst (tick_digests hex_codec True demo_tick ?w))"
  obtain r sent w1 where tick: "send_periodic_blobs_available hex_codec (\<lambda>_. Inr ()) True demo_tick ?w = (r, sent, w1)"
    using prod_cases3 by blast
  obtain handled w2 s2 where replay: "replay_round hex_codec demo_clocks w1 (handle_blobs_available hex_codec demo_clocks ?n demo_connection) = (handled, w2, s2)"
    using prod_cases3 by blast
  have "\<not> should_chunk ?n"
    by (simp add: should_chunk_def estimated_encoded_bytes_def tick_notification_def tick_digests_def demo_tick_def
        BLOBS_AVAILABLE_CHUNK_THRESHOLD_BYTES_def case_prod_beta Let_def)
  moreover have "?n = ?n" ..
  ultimately have "sent = [BlobsAvailable ?n] \<and> handled = [canonical demo_eviction] \<and>
    (\<exists>m1 m2. conn_locality_map (handle_blobs_available hex_codec demo_clocks ?n demo_connection) = Some m1 \<and> resident m1 ''w1'' demo_digest \<and>
       conn_locality_map s2 = Some m2 \<and> \<not> resident m2 ''w1'' demo_digest)"
    using stale_delta_over_snapshot [of ?w c demo_eviction 1 "''w1''" demo_digest hex_codec demo_tick ?n r sent w1
        demo_connection locality_new demo_clocks handled w2 s2]
      c tick replay demo_eviction_decodes hex_codec_ok demo_digest_wf locality_new_inv
    by (simp add: demo_worker_def demo_connection_def demo_eviction_def notification_default_def demo_tick_def demo_digest_def)
  then show ?thesis using c tick replay by auto
qed

end
