(* ===== verification/Spec2Isabelle.thy ===== *)
theory Spec2Isabelle
  imports Fast_CDC State_Manager_Props Snapshot_Replay
begin

text \<open>
  A verification development for NativeLink, a remote build execution and caching server.

  \<^bold>\<open>The program.\<close> Clients send actions to a scheduler, which keeps them in a database of awaited actions,
  hands them to workers and streams their state back; inputs and outputs are blobs in
  content-addressed stores, identified by digests. A worker reports which blobs it holds and which
  action-cache entries it has pinned; the server keeps both in maps that tell where a blob can be
  fetched. Reports that are too large for one message travel in chunks, which the server puts together
  and acknowledges and the worker sends again until they are acknowledged. Errors travel as one error
  type through every component and over the wire.

  \<^bold>\<open>Foundations.\<close>
  \<^item> \<^verbatim>\<open>Prelude\<close>, \<^verbatim>\<open>Rust_Std\<close>: machine integers, times, and the parts of the standard library the code uses.
  \<^item> \<^verbatim>\<open>Nl_Error\<close> (\<^verbatim>\<open>nativelink-error/src/lib.rs\<close>): the error type, its tips, merges and conversions, with the
    round trips over the transport's status and over I/O errors.
  \<^item> \<^verbatim>\<open>Digest\<close> (\<^verbatim>\<open>nativelink-util/src/common.rs\<close>): digests, their string and protobuf forms and round trips. The
    hexadecimal codec is a parameter with the law \<open>hex_ok\<close>, which the instance \<open>hex_codec\<close> satisfies.
  \<^item> \<^verbatim>\<open>Action_Messages\<close> (\<^verbatim>\<open>nativelink-util/src/action_messages.rs\<close>): action infos, results, stages and states,
    with their protobuf conversions and round trips.
  \<^item> \<^verbatim>\<open>Fast_CDC\<close> (\<^verbatim>\<open>nativelink-util/src/fastcdc.rs\<close>): the content-defined chunker; its frames equal those of a
    reference chunker however the input is split into reads, partition the input and respect the sizes.
  \<^item> \<^verbatim>\<open>Chunked_Stream\<close> (\<^verbatim>\<open>nativelink-util/src/chunked_stream.rs\<close>): streams that fetch their items in chunks.

  \<^bold>\<open>The scheduler.\<close>
  \<^item> \<^verbatim>\<open>Awaited_Action\<close>, \<^verbatim>\<open>Awaited_Action_Db\<close>, \<^verbatim>\<open>Awaited_Action_Db_Inv\<close>, \<^verbatim>\<open>Awaited_Action_Db_Props\<close>
    (\<^verbatim>\<open>nativelink-scheduler/src/awaited_action_db\<close>, \<^verbatim>\<open>memory_awaited_action_db.rs\<close>): the awaited action with its
    packed sort key, the in-memory database as a record of its maps and one definition per operation,
    the invariant of every reachable state, and what updates, insertions, listings and the removal of
    unreferenced operations do.
  \<^item> \<^verbatim>\<open>Worker_Registry\<close> (\<^verbatim>\<open>nativelink-scheduler/src/worker_registry.rs\<close>): heartbeats and sliding-window kill
    counts, which refine the log of all kills.
  \<^item> \<^verbatim>\<open>State_Manager\<close>, \<^verbatim>\<open>State_Manager_Inv\<close>, \<^verbatim>\<open>State_Manager_Props\<close>
    (\<^verbatim>\<open>nativelink-scheduler/src/simple_scheduler_state_manager.rs\<close>): the update of an operation as the steps
    between its reads and writes of the database, so that other steps interleave; client timeouts and the
    listing of the queue. The database is used through the locale \<open>awaited_actions\<close>, interpreted on the
    in-memory database. A finished operation stays finished and the retry budget is respected in every
    interleaving. A write is a step only below version \<open>2 ^ 63\<close>, far from where the counter would wrap.

  \<^bold>\<open>The reports of the workers.\<close>
  \<^item> \<^verbatim>\<open>Blob_Locality\<close>, \<^verbatim>\<open>Blob_Locality_Props\<close> (\<^verbatim>\<open>nativelink-util/src/blob_locality_map.rs\<close>): the map from blobs to
    workers and back, with stamps that order reports; it refines a stamped relation, provides the locale
    \<open>worker_holdings\<close>, and its persisted frame round-trips.
  \<^item> \<^verbatim>\<open>Ac_Pin_Registry\<close> (\<^verbatim>\<open>nativelink-util/src/ac_pin_registry.rs\<close>): the pinned action-cache entries of each
    endpoint under their cap.
  \<^item> \<^verbatim>\<open>Blobs_Chunking\<close> (\<^verbatim>\<open>nativelink-util/src/blobs_available_chunking.rs\<close> and the messages of
    \<^verbatim>\<open>worker_api.proto\<close>): a notification is cut into numbered chunks; the loop ends because the entries left
    run down.
  \<^item> \<^verbatim>\<open>Blobs_Accumulator\<close>, \<^verbatim>\<open>Blobs_Broadcast\<close>, \<^verbatim>\<open>Blobs_Broadcast_Props\<close>
    (\<^verbatim>\<open>nativelink-service/src/blobs_available_accumulator.rs\<close>): the partial broadcasts of a connection, with
    their two 128-bit sets of sequence numbers; the caps hold, nothing incomplete is handed on, and what
    the chunker cut is put together again, unless it exceeds the cap of the connection.
  \<^item> \<^verbatim>\<open>Worker_Connection\<close> (\<^verbatim>\<open>nativelink-service/src/worker_api_server.rs\<close>): the arm for chunks and the handler of a
    notification; its calls to other components are recorded in order.
  \<^item> \<^verbatim>\<open>Blob_Changes\<close>, \<^verbatim>\<open>Blobs_Resend\<close> (\<^verbatim>\<open>nativelink-worker/src/local_worker.rs\<close>): the record of changes in the
    store, the resend buffer, the retransmission, the delta after an action and a whole tick. The result
    of each send is a parameter.
  \<^item> \<^verbatim>\<open>Blobs_Resend_Props\<close>, \<^verbatim>\<open>Snapshot_Replay\<close>: worker and server together. The chunked path has the effect of the
    single message; which losses a retransmission repairs; a snapshot in one message does not
    supersede the deltas before it.

  \<^bold>\<open>Bounds and fuel.\<close> Loops are structural or end by a measure. The listing of the queue takes fuel, and more
  fuel than there are operations is enough, which is part of its theorem. Sizes in memory are natural
  numbers; counters, stamps, sequence and broadcast numbers are words of their width. A panic is the
  value \<open>None\<close> and an error the left summand.

  \<^bold>\<open>Not modelled.\<close> The choice of a worker and the matching loop (floating-point scores and time-dependent caches),
  the stores and byte channels (concurrent streams over files, networks and a third-party cache), the
  execution of actions (processes and directories), the public gRPC services, configuration, metrics
  and tracing. Of the server's end of a worker connection only the notifications are modelled, and what
  the spawned uploads do is not; of the worker only its reports are. Where the modelled parts depend on
  these they take a parameter: the codec, the store's listing and callbacks, the order in which a hash
  map is walked, clocks and the results of sends.
\<close>

end
